theory Spec2Isabelle
  imports Complex_Main "HOL-Library.Word"
begin

unbundle bit_operations_syntax

section \<open>Python values used by the ionogram code\<close>

text \<open>
  The exceptions that the modelled parts of \<^verbatim>\<open>ion_class.py\<close> and \<^verbatim>\<open>process.py\<close> can raise.
  The source defines no exception class of its own.
\<close>

datatype error = IndexError | OverflowError | ValueError | ZeroDivisionError | AttributeError

type_synonym byte = "8 word"

text \<open>
  Floating-point values (Python \<^verbatim>\<open>float\<close>, numpy \<^verbatim>\<open>float64\<close>) are idealised: a finite value
  is a real number, and the two infinities and NaN are kept as values of their own, since the
  code tests for NaN and stores it. Rounding and underflow are not modelled. A result beyond
  the largest finite double is modelled where values that the class itself produces reach it:
  in the powers and the sum of \<^verbatim>\<open>20*np.log10(10**(x/20) + 10**(y/20))\<close>.
\<close>

datatype npfloat = Fin real | PInf | NInf | NaN

fun fneg :: "npfloat \<Rightarrow> npfloat" where
  "fneg (Fin x) = Fin (- x)"
| "fneg PInf = NInf"
| "fneg NInf = PInf"
| "fneg NaN = NaN"

fun fadd :: "npfloat \<Rightarrow> npfloat \<Rightarrow> npfloat" where
  "fadd (Fin x) (Fin y) = Fin (x + y)"
| "fadd NaN _ = NaN"
| "fadd _ NaN = NaN"
| "fadd PInf NInf = NaN"
| "fadd NInf PInf = NaN"
| "fadd PInf _ = PInf"
| "fadd _ PInf = PInf"
| "fadd NInf _ = NInf"
| "fadd _ NInf = NInf"

definition fsub :: "npfloat \<Rightarrow> npfloat \<Rightarrow> npfloat" where
  "fsub x y = fadd x (fneg y)"

fun fabs :: "npfloat \<Rightarrow> npfloat" where
  "fabs (Fin x) = Fin \<bar>x\<bar>"
| "fabs PInf = PInf"
| "fabs NInf = PInf"
| "fabs NaN = NaN"

text \<open>\<^verbatim>\<open>x < y\<close> and \<^verbatim>\<open>x > y\<close> on floats: every comparison with NaN is false.\<close>

fun flt :: "npfloat \<Rightarrow> npfloat \<Rightarrow> bool" where
  "flt NaN _ = False"
| "flt _ NaN = False"
| "flt (Fin x) (Fin y) = (x < y)"
| "flt _ NInf = False"
| "flt PInf _ = False"
| "flt NInf _ = True"
| "flt _ PInf = True"

definition fgt :: "npfloat \<Rightarrow> npfloat \<Rightarrow> bool" where
  "fgt x y = flt y x"

text \<open>\<^verbatim>\<open>c * x\<close> and \<^verbatim>\<open>x / c\<close> for a finite constant \<open>c\<close>.\<close>

fun fscale :: "real \<Rightarrow> npfloat \<Rightarrow> npfloat" where
  "fscale c (Fin x) = Fin (c * x)"
| "fscale c NaN = NaN"
| "fscale c PInf = (if c > 0 then PInf else if c < 0 then NInf else NaN)"
| "fscale c NInf = (if c > 0 then NInf else if c < 0 then PInf else NaN)"

text \<open>\<^verbatim>\<open>np.log10(x)\<close>: minus infinity at 0 and NaN below 0 (numpy warns, it does not raise).\<close>

fun np_log10 :: "npfloat \<Rightarrow> npfloat" where
  "np_log10 (Fin x) = (if x > 0 then Fin (log 10 x) else if x = 0 then NInf else NaN)"
| "np_log10 PInf = PInf"
| "np_log10 NInf = NaN"
| "np_log10 NaN = NaN"

text \<open>\<^verbatim>\<open>np.isnan\<close>.\<close>

fun isnan :: "npfloat \<Rightarrow> bool" where
  "isnan NaN = True"
| "isnan _ = False"

text \<open>
  The value of a noise entry or of an echo is a Python int or a float. The decoder stores Python
  ints, and \<^verbatim>\<open>__truediv__\<close> stores the ints 0 and 1; every float that the class stores there is
  a numpy \<^verbatim>\<open>float64\<close> (the result of an expression with \<^verbatim>\<open>np.log10\<close>) or the Python float
  \<^verbatim>\<open>np.nan\<close>. A Python int is taken to be within the range of a double, where its conversion
  to a float is the same number.
\<close>

datatype pynum = IntV int | FloatV npfloat

fun to_float :: "pynum \<Rightarrow> npfloat" where
  "to_float (IntV x) = Fin (of_int x)"
| "to_float (FloatV f) = f"

text \<open>The largest finite double, \<open>(2 - 2^-52) * 2^1023\<close>, about 1.797e308.\<close>

definition max_float :: real where
  "max_float = 2 ^ 1024 - 2 ^ 971"

text \<open>
  \<^verbatim>\<open>10**(x/20)\<close>. On a Python int the power is Python's own float power, which raises
  OverflowError when the result is beyond the largest double (from \<open>x = 6166\<close> on); numpy's
  power gives infinity there (with a warning), and NaN on NaN.
\<close>

fun lin :: "pynum \<Rightarrow> error + npfloat" where
  "lin (IntV x) =
     (if max_float < 10 powr (of_int x / 20) then Inl OverflowError
      else Inr (Fin (10 powr (of_int x / 20))))"
| "lin (FloatV (Fin x)) = Inr (if max_float < 10 powr (x / 20) then PInf else Fin (10 powr (x / 20)))"
| "lin (FloatV PInf) = Inr PInf"
| "lin (FloatV NInf) = Inr (Fin 0)"
| "lin (FloatV NaN) = Inr NaN"

text \<open>A float sum: a finite result beyond the largest double is an infinity.\<close>

fun fadd_overflow :: "npfloat \<Rightarrow> npfloat \<Rightarrow> npfloat" where
  "fadd_overflow (Fin x) (Fin y) =
     (if max_float < x + y then PInf else if x + y < - max_float then NInf else Fin (x + y))"
| "fadd_overflow x y = fadd x y"

text \<open>
  Python list indexing \<^verbatim>\<open>xs[i]\<close>: a negative index counts from the end, an index outside
  \<open>[-len, len)\<close> raises IndexError.
\<close>

definition py_index :: "'a list \<Rightarrow> int \<Rightarrow> error + 'a" where
  "py_index xs i =
     (if 0 \<le> i \<and> i < int (length xs) then Inr (xs ! nat i)
      else if i < 0 \<and> - int (length xs) \<le> i then Inr (xs ! nat (int (length xs) + i))
      else Inl IndexError)"

text \<open>\<^verbatim>\<open>int.from_bytes(bs, 'big')\<close> and \<^verbatim>\<open>v.to_bytes(n, 'big')\<close>.\<close>

definition from_bytes :: "byte list \<Rightarrow> int" where
  "from_bytes bs = foldl (\<lambda>acc b. acc * 256 + uint b) 0 bs"

fun be_digits :: "nat \<Rightarrow> int \<Rightarrow> byte list" where
  "be_digits 0 v = []"
| "be_digits (Suc n) v = be_digits n (v div 256) @ [word_of_int v]"

definition to_bytes :: "int \<Rightarrow> nat \<Rightarrow> error + byte list" where
  "to_bytes v n = (if v < 0 \<or> 256 ^ n \<le> v then Inl OverflowError else Inr (be_digits n v))"

section \<open>The record: class Ionogram\<close>

text \<open>
  \<^verbatim>\<open>imaxheight\<close> is the Python int 0 after \<^verbatim>\<open>__init__\<close> and a numpy integer (the result of
  \<^verbatim>\<open>np.max\<close>) after \<^verbatim>\<open>readion_binary\<close>; the two differ in what division by zero does.
\<close>

datatype hindex = PyInt int | NpInt int

text \<open>
  The fields of an \<^verbatim>\<open>Ionogram\<close> object that the modelled methods read or write. A noise entry
  is \<^verbatim>\<open>[ifn, value]\<close>, an echo is \<^verbatim>\<open>[ifn, it, amp]\<close>. \<open>par_*\<close> are the \<^verbatim>\<open>'value'\<close> entries of
  \<^verbatim>\<open>__parameters\<close>; a Python \<^verbatim>\<open>str\<close> is the list of its code points. \<open>attr_delay\<close> is the
  instance attribute \<^verbatim>\<open>delay\<close>, \<open>None\<close> when the object has no such attribute: no method of
  the class assigns it.
\<close>

type_synonym pystr = "nat list"

record ionogram =
  noise :: "(int \<times> pynum) list"
  echoes :: "(int \<times> int \<times> pynum) list"
  ionogram_matrix :: "npfloat list list"
  first_delay :: real
  nheights :: int
  maxheight :: real
  imaxheight :: hindex
  nfrequences :: int
  par_mode :: pystr
  par_delay :: int
  par_freq0 :: int
  par_freqN :: int
  par_chirp_rate :: int
  par_band_width :: int
  par_freq_step :: int
  attr_delay :: "int option"
  ionogram_loaded :: bool

text \<open>\<^verbatim>\<open>Ionogram.__init__\<close>.\<close>

definition init_ionogram :: ionogram where
  "init_ionogram = \<lparr> noise = [], echoes = [], ionogram_matrix = [], first_delay = 0,
     nheights = 512, maxheight = 0, imaxheight = PyInt 0, nfrequences = 512,
     par_mode = [], par_delay = 0, par_freq0 = 0, par_freqN = 0, par_chirp_rate = 0,
     par_band_width = 0, par_freq_step = 0, attr_delay = None, ionogram_loaded = False \<rparr>"

section \<open>Cluster codec: decoding\<close>

text \<open>\<^verbatim>\<open>__cluster_flag = b'\x80'\<close> and \<^verbatim>\<open>__align = 1\<close>.\<close>

definition cluster_flag :: "byte list" where
  "cluster_flag = [0x80]"

definition align :: int where
  "align = 1"

text \<open>
  \<^verbatim>\<open>__check_new_cluster(value, flag)\<close>: the first byte of \<open>value\<close>, ANDed with the flag,
  written back on \<open>max(len(value[0:1]), len(flag))\<close> bytes, is compared with the flag.
\<close>

definition check_new_cluster :: "byte list \<Rightarrow> byte list \<Rightarrow> bool" where
  "check_new_cluster val flag =
     (to_bytes (from_bytes (take 1 val) AND from_bytes flag)
               (max (length (take 1 val)) (length flag)) = Inr flag)"

text \<open>
  The state of the loop of \<^verbatim>\<open>__parse_ionogram\<close>: the running counter \<^verbatim>\<open>ifn_\<close>, the two lists
  being appended to, and the lines printed. The local \<^verbatim>\<open>ifn\<close> (the low 15 bits of a header) is
  assigned and never read, so it is not part of the state.
\<close>

record pstate =
  ifn_cnt :: int
  p_noise :: "(int \<times> pynum) list"
  p_echoes :: "(int \<times> int \<times> pynum) list"
  p_out :: "string list"

text \<open>One iteration of the loop, on the slice \<^verbatim>\<open>__ionogram[ib:ib+4]\<close>.\<close>

definition parse_group :: "pstate \<Rightarrow> byte list \<Rightarrow> pstate" where
  "parse_group st g =
     (if check_new_cluster (take 2 g) cluster_flag then
        (let st1 = st\<lparr>ifn_cnt := ifn_cnt st + 1\<rparr>
         in if from_bytes (take 2 (drop 2 g)) \<noteq> 1
            then st1\<lparr>p_out := p_out st1 @ [''ERROR in align!'']\<rparr> else st1)
      else
        (let amp = from_bytes (take 2 g); it = from_bytes (take 2 (drop 2 g))
         in if it = 1 then st\<lparr>p_noise := p_noise st @ [(ifn_cnt st, IntV amp)]\<rparr>
            else st\<lparr>p_echoes := p_echoes st @ [(ifn_cnt st, it, IntV amp)]\<rparr>))"

text \<open>The loop \<^verbatim>\<open>for ib in np.arange(0, len(self.__ionogram), 4)\<close>.\<close>

fun parse_loop :: "pstate \<Rightarrow> byte list \<Rightarrow> pstate" where
  "parse_loop st [] = st"
| "parse_loop st (b # bs) = parse_loop (parse_group st (take 4 (b # bs))) (drop 3 bs)"

text \<open>
  \<^verbatim>\<open>__parse_ionogram\<close> on an object whose raw body is \<open>body\<close>: the decoded samples are appended
  to the object's lists.
\<close>

definition parse_ionogram :: "ionogram \<Rightarrow> byte list \<Rightarrow> ionogram \<times> string list" where
  "parse_ionogram r body =
     (let st = parse_loop \<lparr>ifn_cnt = -1, p_noise = noise r, p_echoes = echoes r, p_out = []\<rparr> body
      in (r\<lparr>noise := p_noise st, echoes := p_echoes st\<rparr>, p_out st))"

section \<open>Dense view and encoding\<close>

text \<open>
  A numpy matrix is a list of rows. \<^verbatim>\<open>np.any(m)\<close> is true when some cell is not zero (NaN and
  the infinities count as true); it is false on the empty list that \<^verbatim>\<open>__init__\<close> stores.
\<close>

type_synonym matrix = "npfloat list list"

definition np_any :: "matrix \<Rightarrow> bool" where
  "np_any m = list_ex (\<lambda>row. list_ex (\<lambda>c. c \<noteq> Fin 0) row) m"

text \<open>\<^verbatim>\<open>np.full((nh, nf), fill_value=np.nan)\<close>: a negative dimension raises ValueError.\<close>

definition np_full :: "int \<Rightarrow> int \<Rightarrow> error + matrix" where
  "np_full nh nf =
     (if nh < 0 \<or> nf < 0 then Inl ValueError
      else Inr (replicate (nat nh) (replicate (nat nf) NaN)))"

text \<open>\<^verbatim>\<open>m[i, j]\<close> and \<^verbatim>\<open>m[i, j] = v\<close>, with numpy's negative indices and IndexError.\<close>

definition mat_get :: "matrix \<Rightarrow> int \<Rightarrow> int \<Rightarrow> error + npfloat" where
  "mat_get m i j = (case py_index m i of Inl e \<Rightarrow> Inl e | Inr row \<Rightarrow> py_index row j)"

definition norm_index :: "nat \<Rightarrow> int \<Rightarrow> error + nat" where
  "norm_index n i =
     (if 0 \<le> i \<and> i < int n then Inr (nat i)
      else if i < 0 \<and> - int n \<le> i then Inr (nat (int n + i))
      else Inl IndexError)"

definition mat_set :: "matrix \<Rightarrow> int \<Rightarrow> int \<Rightarrow> npfloat \<Rightarrow> error + matrix" where
  "mat_set m i j v =
     (case norm_index (length m) i of Inl e \<Rightarrow> Inl e
      | Inr i' \<Rightarrow>
         (case norm_index (length (m ! i')) j of Inl e \<Rightarrow> Inl e
          | Inr j' \<Rightarrow> Inr (m[i' := (m ! i')[j' := v]])))"

text \<open>
  The loop of \<^verbatim>\<open>get_ionogram\<close> over \<^verbatim>\<open>self.echoes\<close>. The matrix is updated in place, so an
  exception leaves the cells written so far: the result is the exception, if any, and the
  matrix as it stands. The matrix holds doubles, so an int amplitude is stored as a float.
\<close>

fun fill_matrix :: "matrix \<Rightarrow> int \<Rightarrow> (int \<times> int \<times> pynum) list \<Rightarrow> error option \<times> matrix" where
  "fill_matrix m nh [] = (None, m)"
| "fill_matrix m nh ((f, h, a) # es) =
     (if h < nh then
        (case mat_set m h f (to_float a) of
           Inl e \<Rightarrow> (Some e, m)
         | Inr m' \<Rightarrow> fill_matrix m' nh es)
      else fill_matrix m nh es)"

text \<open>
  \<^verbatim>\<open>get_ionogram(self, recalc)\<close>: the cached matrix is rebuilt when \<^verbatim>\<open>np.any\<close> of it is false
  or on request. Returns the exception or the matrix, and the object with its cache.
\<close>

definition get_ionogram :: "ionogram \<Rightarrow> bool \<Rightarrow> (error + matrix) \<times> ionogram" where
  "get_ionogram r recalc =
     (if \<not> np_any (ionogram_matrix r) \<or> recalc then
        (case np_full (nheights r) (nfrequences r) of
           Inl e \<Rightarrow> (Inl e, r)
         | Inr m0 \<Rightarrow>
            (case fill_matrix m0 (nheights r) (echoes r) of
               (Some e, m) \<Rightarrow> (Inl e, r\<lparr>ionogram_matrix := m\<rparr>)
             | (None, m) \<Rightarrow> (Inr m, r\<lparr>ionogram_matrix := m\<rparr>)))
      else (Inr (ionogram_matrix r), r))"

text \<open>
  What a sequence of \<^verbatim>\<open>f.write\<close> calls has put into the file, and the exception that stopped
  it, if any. \<open>wthen\<close> is sequencing: nothing is written after an exception.
\<close>

type_synonym writer = "byte list \<times> error option"

definition wthen :: "writer \<Rightarrow> writer \<Rightarrow> writer" where
  "wthen a b = (case snd a of Some e \<Rightarrow> a | None \<Rightarrow> (fst a @ fst b, snd b))"

definition wbytes :: "error + byte list \<Rightarrow> writer" where
  "wbytes x = (case x of Inl e \<Rightarrow> ([], Some e) | Inr bs \<Rightarrow> (bs, None))"

fun wfor :: "('a \<Rightarrow> writer) \<Rightarrow> 'a list \<Rightarrow> writer" where
  "wfor f [] = ([], None)"
| "wfor f (x # xs) = wthen (f x) (wfor f xs)"

text \<open>\<^verbatim>\<open>range(n)\<close>.\<close>

definition py_range :: "int \<Rightarrow> int list" where
  "py_range n = map int [0..<nat n]"

text \<open>
  \<^verbatim>\<open>int(x)\<close> on a float: truncation towards zero; OverflowError on an infinity, ValueError
  on NaN.
\<close>

fun py_int :: "npfloat \<Rightarrow> error + int" where
  "py_int (Fin x) = Inr (if 0 \<le> x then \<lfloor>x\<rfloor> else \<lceil>x\<rceil>)"
| "py_int PInf = Inl OverflowError"
| "py_int NInf = Inl OverflowError"
| "py_int NaN = Inl ValueError"

definition int_to_bytes2 :: "npfloat \<Rightarrow> error + byte list" where
  "int_to_bytes2 x = (case py_int x of Inl e \<Rightarrow> Inl e | Inr z \<Rightarrow> to_bytes z 2)"

text \<open>
  \<^verbatim>\<open>noise[ifn, 1]\<close> on \<^verbatim>\<open>np.array(self.noise)\<close>, as a float: \<^verbatim>\<open>int(...)\<close> of an element of an
  integer array is the int itself, which is also \<^verbatim>\<open>int(...)\<close> of that int as a float.
\<close>

definition noise_at :: "(int \<times> pynum) list \<Rightarrow> int \<Rightarrow> error + npfloat" where
  "noise_at ns ifn =
     (case py_index ns ifn of Inl e \<Rightarrow> Inl e | Inr p \<Rightarrow> Inr (to_float (snd p)))"

text \<open>The body of the inner loop of \<^verbatim>\<open>writeion\<close>, for one height index.\<close>

definition write_height :: "matrix \<Rightarrow> int \<Rightarrow> int \<Rightarrow> writer" where
  "write_height amp ifn it =
     (case mat_get amp it ifn of
        Inl e \<Rightarrow> ([], Some e)
      | Inr v \<Rightarrow>
         (if \<not> isnan v then wthen (wbytes (int_to_bytes2 v)) (wbytes (to_bytes it 2))
          else ([], None)))"

text \<open>The body of the outer loop, for one frequency index.\<close>

definition write_cluster :: "(int \<times> pynum) list \<Rightarrow> matrix \<Rightarrow> int \<Rightarrow> int \<Rightarrow> writer" where
  "write_cluster ns amp nh ifn =
     wthen (wbytes (to_bytes ((ifn + 1) OR 32768) 2))
    (wthen (wbytes (to_bytes align 2))
    (wthen (wbytes (case noise_at ns ifn of Inl e \<Rightarrow> Inl e | Inr v \<Rightarrow> int_to_bytes2 v))
    (wthen (wbytes (to_bytes align 2))
           (wfor (write_height amp ifn) (py_range nh)))))"

text \<open>What \<^verbatim>\<open>writeion\<close> writes after the delimiter, given the dense matrix.\<close>

definition write_body :: "ionogram \<Rightarrow> matrix \<Rightarrow> writer" where
  "write_body r amp = wfor (write_cluster (noise r) amp (nheights r)) (py_range (nfrequences r))"

text \<open>
  The encoded body of a record: the dense matrix from \<^verbatim>\<open>get_ionogram\<close>, then the clusters.
\<close>

definition encode_body :: "ionogram \<Rightarrow> writer" where
  "encode_body r =
     (case fst (get_ionogram r False) of Inl e \<Rightarrow> ([], Some e) | Inr amp \<Rightarrow> write_body r amp)"

text \<open>
  The outside world of \<^verbatim>\<open>writeion\<close>: the regular files by path, and what was printed. Opening
  a path for writing is taken to succeed.
\<close>

record world =
  files :: "string \<rightharpoonup> byte list"
  stdout :: "string list"

definition print :: "string \<Rightarrow> world \<Rightarrow> world" where
  "print s w = w\<lparr>stdout := stdout w @ [s]\<rparr>"

text \<open>\<^verbatim>\<open>__delimeter\<close>, as bytes.\<close>

definition delimeter :: "byte list" where
  "delimeter = [0, 0, 0, 0]"

text \<open>
  \<^verbatim>\<open>writeion(self, filename, rewrite)\<close>. The passport text in cp866
  (\<^verbatim>\<open>get_passport(self).encode('cp866')\<close>) is the parameter \<open>passport\<close>. The result is the
  exception, if any, the object (its matrix cache may have changed) and the world.
\<close>

definition writeion ::
  "(ionogram \<Rightarrow> error + byte list) \<Rightarrow> ionogram \<Rightarrow> string option \<Rightarrow> bool \<Rightarrow> world
     \<Rightarrow> error option \<times> ionogram \<times> world" where
  "writeion passport r filename rewrite w =
     (if \<not> ionogram_loaded r then (None, r, print ''Ionogram is empty!'' w)
      else
        (case filename of
           None \<Rightarrow> (None, r, print ''You should indicate ionogram filename to write!'' w)
         | Some fn \<Rightarrow>
            (if files w fn \<noteq> None \<and> \<not> rewrite
             then (None, r, print ''Destination file already exists!'' w)
             else
               (case passport r of
                  Inl e \<Rightarrow> (Some e, r, w\<lparr>files := (files w)(fn \<mapsto> [])\<rparr>)
                | Inr pb \<Rightarrow>
                   (case get_ionogram r False of
                      (Inl e, r') \<Rightarrow>
                        (Some e, r', w\<lparr>files := (files w)(fn \<mapsto> pb @ delimeter)\<rparr>)
                    | (Inr amp, r') \<Rightarrow>
                        (let out = write_body r' amp
                         in (snd out, r',
                             w\<lparr>files := (files w)(fn \<mapsto> pb @ delimeter @ fst out)\<rparr>)))))))"

section \<open>Merge algebra\<close>

text \<open>
  \<^verbatim>\<open>20*np.log10( 10**(x/20) + 10**(y/20) )\<close>: the left power first, then the right one; the
  result is a numpy \<^verbatim>\<open>float64\<close>.
\<close>

definition dbsum :: "pynum \<Rightarrow> pynum \<Rightarrow> error + npfloat" where
  "dbsum x y =
     (case lin x of
        Inl e \<Rightarrow> Inl e
      | Inr u \<Rightarrow>
         (case lin y of
            Inl e \<Rightarrow> Inl e
          | Inr v \<Rightarrow> Inr (fscale 20 (np_log10 (fadd_overflow u v)))))"

text \<open>
  \<^verbatim>\<open>self.maxheight / self.imaxheight\<close>: a Python int divisor 0 raises, a numpy divisor 0
  gives an infinity or NaN.
\<close>

fun height_ratio :: "real \<Rightarrow> hindex \<Rightarrow> error + npfloat" where
  "height_ratio m (PyInt i) = (if i = 0 then Inl ZeroDivisionError else Inr (Fin (m / of_int i)))"
| "height_ratio m (NpInt i) =
     Inr (if i \<noteq> 0 then Fin (m / of_int i)
          else if m > 0 then PInf else if m < 0 then NInf else NaN)"

text \<open>\<^verbatim>\<open>__eq__\<close>. The checks run in the source's order; the last one reads \<^verbatim>\<open>self.delay\<close>.\<close>

definition ionogram_eq :: "ionogram \<Rightarrow> ionogram \<Rightarrow> error + bool" where
  "ionogram_eq self other =
     (let res = True;
          res = (if length (noise self) \<noteq> length (noise other) then False else res);
          res = (if par_freq0 self \<noteq> par_freq0 other then False else res);
          res = (if par_freqN self \<noteq> par_freqN other then False else res);
          res = (if par_freq_step self \<noteq> par_freq_step other then False else res)
      in case height_ratio (maxheight self) (imaxheight self) of
           Inl e \<Rightarrow> Inl e
         | Inr qa \<Rightarrow>
            (case height_ratio (maxheight other) (imaxheight other) of
               Inl e \<Rightarrow> Inl e
             | Inr qb \<Rightarrow>
                (let res = (if fgt (fabs (fsub qa qb)) (Fin 0.01) then False else res)
                 in case attr_delay self of
                      None \<Rightarrow> Inl AttributeError
                    | Some da \<Rightarrow>
                       (case attr_delay other of
                          None \<Rightarrow> Inl AttributeError
                        | Some db \<Rightarrow> Inr (if da \<noteq> db then False else res)))))"

text \<open>\<^verbatim>\<open>np.argmax\<close> of a non-empty column: the index of the first maximum.\<close>

fun argmax_from :: "int list \<Rightarrow> nat \<Rightarrow> nat \<Rightarrow> int \<Rightarrow> nat" where
  "argmax_from [] i bi bv = bi"
| "argmax_from (x # xs) i bi bv =
     (if bv < x then argmax_from xs (Suc i) i x else argmax_from xs (Suc i) bi bv)"

definition np_argmax :: "int list \<Rightarrow> error + nat" where
  "np_argmax xs = (case xs of [] \<Rightarrow> Inl IndexError | x # rest \<Rightarrow> Inr (argmax_from rest 1 0 x))"

text \<open>\<^verbatim>\<open>enumerate\<close>.\<close>

definition enumerate_list :: "'a list \<Rightarrow> (nat \<times> 'a) list" where
  "enumerate_list xs = zip [0..<length xs] xs"

text \<open>
  \<^verbatim>\<open>__truediv__(self, scalar)\<close>, on a deep copy. \<^verbatim>\<open>np.array(c.echoes)[:, 1]\<close> is the column of
  height indices; on an empty echo list the slice raises IndexError. A value minus
  \<^verbatim>\<open>20*np.log10(scalar)\<close> is a numpy \<^verbatim>\<open>float64\<close>; the constants 0 and 1 are Python ints and
  \<^verbatim>\<open>np.nan\<close> is a float.
\<close>

definition truediv :: "ionogram \<Rightarrow> real \<Rightarrow> error + ionogram" where
  "truediv self scalar =
     (case np_argmax (map (\<lambda>e. fst (snd e)) (echoes self)) of
        Inl e \<Rightarrow> Inl e
      | Inr index_max \<Rightarrow>
         (let db = fscale 20 (np_log10 (Fin scalar));
              ns = map (\<lambda>(f, v). let v' = fsub (to_float v) db
                                 in (f, if flt v' (Fin 0) then IntV 0 else FloatV v'))
                       (noise self);
              es = map (\<lambda>(i, (f, h, a)).
                          let a' = (if i \<noteq> index_max then FloatV (fsub (to_float a) db)
                                    else IntV 1)
                          in (f, h, if flt (to_float a') (Fin 0) then FloatV NaN else a'))
                       (enumerate_list (echoes self))
          in Inr (self\<lparr>noise := ns, echoes := es\<rparr>)))"

text \<open>
  The noise loop of \<^verbatim>\<open>__iadd__\<close> and \<^verbatim>\<open>__add__\<close>: entry \<open>i\<close> of the left list is combined with
  entry \<open>i\<close> of the right one. \<^verbatim>\<open>self.noise[i]\<close> raises IndexError once the left list is
  exhausted, and a power may raise OverflowError; either way the entries before that one have
  been updated and the others are as they were.
\<close>

fun merge_noise ::
  "(int \<times> pynum) list \<Rightarrow> (int \<times> pynum) list \<Rightarrow> error option \<times> (int \<times> pynum) list" where
  "merge_noise ns [] = (None, ns)"
| "merge_noise [] (e # es) = (Some IndexError, [])"
| "merge_noise ((j, v) # ns) ((j', w) # es) =
     (case dbsum v w of
        Inl err \<Rightarrow> (Some err, (j, v) # ns)
      | Inr s \<Rightarrow> (case merge_noise ns es of (err, ns') \<Rightarrow> (err, (j, FloatV s) # ns')))"

text \<open>The inner loop: the position of the first echo with the given \<^verbatim>\<open>[ifn, it]\<close>.\<close>

fun find_echo :: "int \<times> int \<Rightarrow> (int \<times> int \<times> pynum) list \<Rightarrow> nat option" where
  "find_echo k [] = None"
| "find_echo k ((f, h, a) # es) =
     (if (f, h) = k then Some 0 else map_option Suc (find_echo k es))"

text \<open>
  One iteration of the echo loop, for the echo \<open>e\<close> of the right operand. With a counterpart
  the two powers come first, then the noise entry is looked up.
\<close>

definition merge_echo ::
  "(int \<times> pynum) list \<Rightarrow> (int \<times> int \<times> pynum) list \<Rightarrow> int \<times> int \<times> pynum
     \<Rightarrow> error option \<times> (int \<times> int \<times> pynum) list" where
  "merge_echo ns es e =
     (case e of (f, h, a) \<Rightarrow>
       (case find_echo (f, h) es of
          Some i1 \<Rightarrow>
            (case es ! i1 of (f1, h1, a1) \<Rightarrow>
               (case dbsum a1 a of
                  Inl err \<Rightarrow> (Some err, es)
                | Inr sum_value \<Rightarrow>
                   (case py_index ns f1 of
                      Inl err \<Rightarrow> (Some err, es)
                    | Inr nv \<Rightarrow>
                       (None, if fgt sum_value (to_float (snd nv))
                              then es[i1 := (f1, h1, FloatV sum_value)]
                              else take i1 es @ drop (Suc i1) es))))
        | None \<Rightarrow>
            (case py_index ns f of
               Inl err \<Rightarrow> (Some err, es)
             | Inr nv \<Rightarrow>
                (None, if fgt (to_float a) (to_float (snd nv)) then es @ [(f, h, a)] else es))))"

fun merge_echoes ::
  "(int \<times> pynum) list \<Rightarrow> (int \<times> int \<times> pynum) list \<Rightarrow> (int \<times> int \<times> pynum) list
     \<Rightarrow> error option \<times> (int \<times> int \<times> pynum) list" where
  "merge_echoes ns es [] = (None, es)"
| "merge_echoes ns es (e # rest) =
     (case merge_echo ns es e of
        (Some err, es') \<Rightarrow> (Some err, es')
      | (None, es') \<Rightarrow> merge_echoes ns es' rest)"

text \<open>
  \<^verbatim>\<open>__iadd__(self, other)\<close>, where \<open>self\<close> and \<open>other\<close> are two distinct objects (as in
  \<^verbatim>\<open>process.py\<close>, which adds each record read to a deep copy of the first): the exception, if
  any, and \<open>self\<close> as the call leaves it. The call \<^verbatim>\<open>a += a\<close>, in which the loops run over the
  lists they change, is not what this function describes.
\<close>

definition iadd :: "ionogram \<Rightarrow> ionogram \<Rightarrow> error option \<times> ionogram" where
  "iadd self other =
     (case merge_noise (noise self) (noise other) of
        (Some e, ns) \<Rightarrow> (Some e, self\<lparr>noise := ns\<rparr>)
      | (None, ns) \<Rightarrow>
         (case merge_echoes ns (echoes self) (echoes other) of
            (err, es) \<Rightarrow> (err, self\<lparr>noise := ns, echoes := es\<rparr>)))"

text \<open>
  \<^verbatim>\<open>__add__(self, other)\<close>: the same two loops, on a deep copy of \<open>self\<close>; the copy is a
  distinct object also in \<^verbatim>\<open>a + a\<close>.
\<close>

definition add :: "ionogram \<Rightarrow> ionogram \<Rightarrow> error + ionogram" where
  "add self other =
     (case merge_noise (noise self) (noise other) of
        (Some e, ns) \<Rightarrow> Inl e
      | (None, ns) \<Rightarrow>
         (case merge_echoes ns (echoes self) (echoes other) of
            (Some e, es) \<Rightarrow> Inl e
          | (None, es) \<Rightarrow> Inr (self\<lparr>noise := ns, echoes := es\<rparr>)))"

section \<open>Calibration\<close>

text \<open>\<^verbatim>\<open>light_velocity = 3.0e+8\<close>.\<close>

definition light_velocity :: real where
  "light_velocity = 300000000"

text \<open>The mode string compared in \<^verbatim>\<open>__parse_passport\<close>: U+041D, U+0417.\<close>

definition mode_NZ :: pystr where
  "mode_NZ = [1053, 1047]"

text \<open>Python's \<^verbatim>\<open>x / y\<close> on numbers.\<close>

definition py_div :: "real \<Rightarrow> real \<Rightarrow> error + real" where
  "py_div x y = (if y = 0 then Inl ZeroDivisionError else Inr (x / y))"

text \<open>
  The last statements of \<^verbatim>\<open>__parse_passport\<close>, after the numeric fields have been cast: the
  exception, if any, and the object with the attributes assigned so far.
\<close>

definition derive_geometry :: "ionogram \<Rightarrow> error option \<times> ionogram" where
  "derive_geometry r =
     (case py_div (of_int (par_freqN r - par_freq0 r)) (of_int (par_freq_step r)) of
        Inl e \<Rightarrow> (Some e, r)
      | Inr q \<Rightarrow>
         (let r1 = r\<lparr>nfrequences := (if 0 \<le> q then \<lfloor>q\<rfloor> else \<lceil>q\<rceil>)\<rparr>;
              r2 = r1\<lparr>first_delay := of_int (par_delay r) * light_velocity / 1000 / 1000\<rparr>
          in case py_div (light_velocity * of_int (par_band_width r)) (of_int (par_chirp_rate r)) of
               Inl e \<Rightarrow> (Some e, r2)
             | Inr x \<Rightarrow>
                 (if par_mode r = mode_NZ then (None, r2\<lparr>maxheight := x / 1000\<rparr>)
                  else (None, r2\<lparr>maxheight := x / 2.0 / 1000\<rparr>))))"

section \<open>Window enumeration\<close>

text \<open>\<^verbatim>\<open>range(start, stop)\<close> and \<^verbatim>\<open>range(start, stop, step)\<close>; a zero step raises ValueError.\<close>

definition py_range2 :: "int \<Rightarrow> int \<Rightarrow> int list" where
  "py_range2 start stop = map (\<lambda>k. start + int k) [0..<nat (stop - start)]"

definition py_range3 :: "int \<Rightarrow> int \<Rightarrow> int \<Rightarrow> error + int list" where
  "py_range3 start stop step =
     (if step = 0 then Inl ValueError
      else if 0 < step then
        Inr (map (\<lambda>k. start + int k * step) [0..<nat ((stop - start + step - 1) div step)])
      else
        Inr (map (\<lambda>k. start + int k * step) [0..<nat ((start - stop - step - 1) div (- step))]))"

text \<open>A \<^verbatim>\<open>for\<close> loop whose body appends to a list and may raise.\<close>

fun for_each :: "'a list \<Rightarrow> ('a \<Rightarrow> error + 'b list) \<Rightarrow> error + 'b list" where
  "for_each [] f = Inr []"
| "for_each (x # xs) f =
     (case f x of
        Inl e \<Rightarrow> Inl e
      | Inr ys \<Rightarrow> (case for_each xs f of Inl e \<Rightarrow> Inl e | Inr zs \<Rightarrow> Inr (ys @ zs)))"

definition bind :: "error + 'a \<Rightarrow> ('a \<Rightarrow> error + 'b) \<Rightarrow> error + 'b" where
  "bind x f = (case x of Inl e \<Rightarrow> Inl e | Inr v \<Rightarrow> f v)"

type_synonym job = "int \<times> int \<times> int \<times> int \<times> int \<times> int"

text \<open>
  The loop nest of \<^verbatim>\<open>main\<close> that fills \<^verbatim>\<open>args\<close>, from the globals \<^verbatim>\<open>date_from\<close>, \<^verbatim>\<open>date_to\<close>
  (lists of integers) and \<^verbatim>\<open>dm\<close>.
\<close>

definition window_jobs :: "int list \<Rightarrow> int list \<Rightarrow> int \<Rightarrow> error + job list" where
  "window_jobs date_from date_to dm =
     bind (py_index date_from 0) (\<lambda>y0. bind (py_index date_to 0) (\<lambda>y1.
       for_each (py_range2 y0 (y1 + 1)) (\<lambda>year.
         bind (py_index date_from 1) (\<lambda>m0. bind (py_index date_to 1) (\<lambda>m1.
           for_each (py_range2 m0 (m1 + 1)) (\<lambda>month.
             bind (py_index date_from 2) (\<lambda>d0. bind (py_index date_to 2) (\<lambda>d1.
               for_each (py_range2 d0 (d1 + 1)) (\<lambda>day.
                 for_each (py_range2 0 24) (\<lambda>h.
                   bind (py_range3 0 60 dm) (\<lambda>ms.
                     for_each ms (\<lambda>m. Inr [(year, month, day, h, m, m + dm)]))))))))))))"

text \<open>
  The enumeration followed by the \<^verbatim>\<open>print\<close> of \<^verbatim>\<open>args[0], args[1], args[-2], args[-1]\<close>, which
  raises IndexError on fewer than two jobs.
\<close>

definition main_args :: "int list \<Rightarrow> int list \<Rightarrow> int \<Rightarrow> error + job list" where
  "main_args date_from date_to dm =
     bind (window_jobs date_from date_to dm) (\<lambda>args.
       if length args < 2 then Inl IndexError else Inr args)"

section \<open>Notions used to state the properties\<close>

text \<open>
  The slices \<^verbatim>\<open>__ionogram[ib:ib+4]\<close> that the decoding loop visits, in order; the last one is
  shorter when the body length is not a multiple of 4.
\<close>

fun groups :: "byte list \<Rightarrow> byte list list" where
  "groups [] = []"
| "groups (b # bs) = take 4 (b # bs) # groups (drop 3 bs)"

text \<open>The test and the two 16-bit values that the loop reads from a group.\<close>

definition is_header :: "byte list \<Rightarrow> bool" where
  "is_header g = check_new_cluster (take 2 g) cluster_flag"

definition group_amp :: "byte list \<Rightarrow> int" where
  "group_amp g = from_bytes (take 2 g)"

definition group_it :: "byte list \<Rightarrow> int" where
  "group_it g = from_bytes (take 2 (drop 2 g))"

text \<open>The number of cluster headers among the first \<open>i\<close> groups.\<close>

definition headers_before :: "byte list list \<Rightarrow> nat \<Rightarrow> int" where
  "headers_before gs i = int (length (filter is_header (take i gs)))"

text \<open>
  The noise and echo samples of a group list, each labelled with \<open>c\<close> plus the number of
  headers before it.
\<close>

definition noise_samples :: "int \<Rightarrow> byte list list \<Rightarrow> (int \<times> pynum) list" where
  "noise_samples c gs =
     map (\<lambda>i. (c + headers_before gs i, IntV (group_amp (gs ! i))))
         (filter (\<lambda>i. \<not> is_header (gs ! i) \<and> group_it (gs ! i) = 1) [0..<length gs])"

definition echo_samples :: "int \<Rightarrow> byte list list \<Rightarrow> (int \<times> int \<times> pynum) list" where
  "echo_samples c gs =
     map (\<lambda>i. (c + headers_before gs i, group_it (gs ! i), IntV (group_amp (gs ! i))))
         (filter (\<lambda>i. \<not> is_header (gs ! i) \<and> group_it (gs ! i) \<noteq> 1) [0..<length gs])"

text \<open>
  The body of the concrete scenario: a cluster header with frequency index 1 and alignment 1,
  a noise group (amplitude 5, height index 1) and an echo group (amplitude 42, height index 10).
\<close>

definition scenario_body :: "byte list" where
  "scenario_body = [0x80, 0x01, 0x00, 0x01,  0x00, 0x05, 0x00, 0x01,  0x00, 0x2A, 0x00, 0x0A]"

text \<open>
  The expected jobs of 2020-01-01 with 5-minute windows: for each hour, one job per window start.
\<close>

definition hour_jobs :: "int \<Rightarrow> job list" where
  "hour_jobs h = map (\<lambda>m. (2020, 1, 1, h, m, m + 5)) [0, 5, 10, 15, 20, 25, 30, 35, 40, 45, 50, 55]"

definition day_jobs :: "job list" where
  "day_jobs = concat (map hour_jobs (py_range2 0 24))"

text \<open>
  An object as \<^verbatim>\<open>readion_binary\<close> leaves it: one frequency, one noise entry, one echo at height
  index 10, \<^verbatim>\<open>imaxheight\<close> a numpy integer.
\<close>

definition loaded_example :: ionogram where
  "loaded_example = init_ionogram\<lparr>noise := [(0, IntV 5)], echoes := [(0, 10, IntV 42)],
     nheights := 11, nfrequences := 1, maxheight := 1500, imaxheight := NpInt 10,
     ionogram_loaded := True\<rparr>"

text \<open>Position \<open>m\<close> holds the first maximum of a list.\<close>

definition is_first_max :: "int list \<Rightarrow> nat \<Rightarrow> bool" where
  "is_first_max hs m \<longleftrightarrow>
     m < length hs \<and> (\<forall>j<length hs. hs ! j \<le> hs ! m) \<and> (\<forall>j<m. hs ! j < hs ! m)"

text \<open>
  A record with three echoes: the largest amplitude (50) at height index 10, the largest height
  index (20) with amplitude 30, and a weak echo (10) at height index 5.
\<close>

definition div_example :: ionogram where
  "div_example = loaded_example\<lparr>echoes := [(0, 10, IntV 50), (0, 20, IntV 30), (0, 5, IntV 10)],
     nheights := 21, imaxheight := NpInt 20\<rparr>"

text \<open>
  Loaded records for the merge operations: one with two noise entries, one with a single noise
  entry and an echo at height index 20, and one whose only echo carries frequency index 3.
\<close>

definition two_freq_example :: ionogram where
  "two_freq_example = loaded_example\<lparr>noise := [(0, IntV 0), (1, IntV 0)], nfrequences := 2\<rparr>"

definition one_freq_example :: ionogram where
  "one_freq_example = loaded_example\<lparr>noise := [(0, IntV 0)], echoes := [(0, 20, IntV 30)],
     nheights := 21, imaxheight := NpInt 20\<rparr>"

definition off_range_example :: ionogram where
  "off_range_example = loaded_example\<lparr>echoes := [(3, 10, IntV 42)]\<rparr>"

text \<open>
  A value whose power \<^verbatim>\<open>10**(v/20)\<close> raises nothing: a float, or an int up to 6165. The dB sum
  of two such values (NaN stands in where a power raises).
\<close>

definition in_range :: "pynum \<Rightarrow> bool" where
  "in_range v = (case v of IntV x \<Rightarrow> x \<le> 6165 | FloatV f \<Rightarrow> True)"

definition db_level :: "pynum \<Rightarrow> pynum \<Rightarrow> npfloat" where
  "db_level x y = (case dbsum x y of Inr s \<Rightarrow> s | Inl e \<Rightarrow> NaN)"

text \<open>Entry \<open>i\<close> of the merged noise vector, from the pair of entries \<open>i\<close> of the operands.\<close>

definition combine_noise :: "(int \<times> pynum) \<times> (int \<times> pynum) \<Rightarrow> int \<times> pynum" where
  "combine_noise p = (fst (fst p), FloatV (db_level (snd (fst p)) (snd (snd p))))"

text \<open>
  An echo list with at most one echo per \<^verbatim>\<open>[ifn, it]\<close> seen as a map from that pair to the
  amplitude.
\<close>

definition echo_key :: "int \<times> int \<times> pynum \<Rightarrow> int \<times> int" where
  "echo_key e = (fst e, fst (snd e))"

definition echo_amp :: "int \<times> int \<times> pynum \<Rightarrow> pynum" where
  "echo_amp e = snd (snd e)"

definition echo_map :: "(int \<times> int \<times> pynum) list \<Rightarrow> (int \<times> int) \<rightharpoonup> pynum" where
  "echo_map es = map_of (map (\<lambda>e. (echo_key e, echo_amp e)) es)"

text \<open>
  A frequency index that Python accepts for a list of length \<open>n\<close>, the noise value it selects,
  and the noise vector of a sum of two records with as many noise entries.
\<close>

definition index_ok :: "nat \<Rightarrow> int \<Rightarrow> bool" where
  "index_ok n f \<longleftrightarrow> - int n \<le> f \<and> f < int n"

definition noise_level :: "(int \<times> pynum) list \<Rightarrow> int \<Rightarrow> npfloat" where
  "noise_level ns f = to_float (snd (ns ! nat (if f < 0 then int (length ns) + f else f)))"

definition merged_noise :: "ionogram \<Rightarrow> ionogram \<Rightarrow> (int \<times> pynum) list" where
  "merged_noise a b = map combine_noise (zip (noise a) (noise b))"

text \<open>
  What the echo loop leaves at one \<^verbatim>\<open>[ifn, it]\<close>, from the amplitude on the left and on the right
  (\<open>None\<close>: no echo there): an echo of the right operand survives only above the noise level,
  alone or summed with its counterpart; an echo only on the left is kept as it is.
\<close>

definition gate :: "pynum \<Rightarrow> npfloat \<Rightarrow> pynum option" where
  "gate v lvl = (if fgt (to_float v) lvl then Some v else None)"

definition merged_amp ::
  "(int \<times> pynum) list \<Rightarrow> int \<times> int \<Rightarrow> pynum option \<Rightarrow> pynum option \<Rightarrow> pynum option" where
  "merged_amp ns k left right =
     (case right of
        None \<Rightarrow> left
      | Some a \<Rightarrow>
         (case left of
            None \<Rightarrow> gate a (noise_level ns (fst k))
          | Some a1 \<Rightarrow> gate (FloatV (db_level a1 a)) (noise_level ns (fst k))))"

text \<open>
  The echoes of \<open>a\<close> that have no counterpart in \<open>b\<close> and are not above the noise level of the
  sum at their frequency.
\<close>

definition weak_one_sided :: "ionogram \<Rightarrow> ionogram \<Rightarrow> (int \<times> int \<times> pynum) set" where
  "weak_one_sided a b =
     {e \<in> set (echoes a). echo_key e \<notin> echo_key ` set (echoes b)
        \<and> \<not> fgt (to_float (echo_amp e)) (noise_level (merged_noise a b) (fst e))}"

text \<open>
  No power raises while two records are added: every noise value and every echo amplitude of
  the record is in range.
\<close>

definition values_in_range :: "ionogram \<Rightarrow> bool" where
  "values_in_range r \<longleftrightarrow>
     list_all (\<lambda>p. in_range (snd p)) (noise r) \<and> list_all (\<lambda>e. in_range (echo_amp e)) (echoes r)"

text \<open>
  Records for addition, all with the single noise entry 0 dB: one whose only echo has amplitude
  0, and two that share the echo position (0, 10) and have one strong echo each elsewhere.
\<close>

definition weak_echo_example :: ionogram where
  "weak_echo_example = loaded_example\<lparr>noise := [(0, IntV 0)], echoes := [(0, 10, IntV 0)]\<rparr>"

definition pair_left_example :: ionogram where
  "pair_left_example = loaded_example\<lparr>noise := [(0, IntV 0)],
     echoes := [(0, 10, IntV 5), (0, 20, IntV 30)], nheights := 21, imaxheight := NpInt 20\<rparr>"

definition pair_right_example :: ionogram where
  "pair_right_example = loaded_example\<lparr>noise := [(0, IntV 0)],
     echoes := [(0, 10, IntV 5), (0, 30, IntV 40)], nheights := 31, imaxheight := NpInt 30\<rparr>"

text \<open>A record whose noise value 7000 is beyond the range of the power.\<close>

definition loud_noise_example :: ionogram where
  "loud_noise_example = loaded_example\<lparr>noise := [(0, IntV 7000)]\<rparr>"

text \<open>
  The round trip through the file body. A writer \<open>emits\<close> a state transformer when it raises
  nothing, writes whole groups of 4 bytes, and the decoding loop run over these bytes changes
  its state by that transformer.
\<close>

definition emits :: "writer \<Rightarrow> (pstate \<Rightarrow> pstate) \<Rightarrow> bool" where
  "emits w t \<longleftrightarrow> (\<exists>bs. w = (bs, None) \<and> length bs mod 4 = 0 \<and> (\<forall>st. parse_loop st bs = t st))"

text \<open>
  A matrix of \<open>nh\<close> rows and \<open>nf\<close> columns, and cell \<open>(i, j)\<close> of the dense view of an echo list
  with at most one echo per position.
\<close>

definition mat_ok :: "matrix \<Rightarrow> nat \<Rightarrow> nat \<Rightarrow> bool" where
  "mat_ok m nh nf \<longleftrightarrow> length m = nh \<and> (\<forall>i<nh. length (m ! i) = nf)"

definition dense_cell :: "(int \<times> int \<times> pynum) list \<Rightarrow> nat \<Rightarrow> nat \<Rightarrow> npfloat" where
  "dense_cell es i j = (case echo_map es (int j, int i) of Some a \<Rightarrow> to_float a | None \<Rightarrow> NaN)"

text \<open>
  The integer that \<^verbatim>\<open>int(...)\<close> makes of a cell, and a cell that the encoder writes as a group
  which the decoder reads as an echo: NaN (nothing is written), or an integer below \<open>2^15\<close>
  at a height index other than 1 and below \<open>2^16\<close>.
\<close>

definition cell_value :: "npfloat \<Rightarrow> int" where
  "cell_value c = (case py_int c of Inr z \<Rightarrow> z | Inl e \<Rightarrow> 0)"

definition cell_ok :: "npfloat \<Rightarrow> int \<Rightarrow> bool" where
  "cell_ok c it \<longleftrightarrow>
     c = NaN \<or> (\<exists>z. c = Fin (of_int z) \<and> 0 \<le> z \<and> z < 32768 \<and> it \<noteq> 1 \<and> it < 65536)"

text \<open>
  What the decoder does on the bytes written for one height index, and for one frequency
  index with noise value \<open>nv\<close> and matrix column \<open>col\<close>.
\<close>

definition after_height :: "npfloat \<Rightarrow> int \<Rightarrow> pstate \<Rightarrow> pstate" where
  "after_height c it st =
     (if isnan c then st else st\<lparr>p_echoes := p_echoes st @ [(ifn_cnt st, it, IntV (cell_value c))]\<rparr>)"

definition after_cluster :: "int \<Rightarrow> (int \<Rightarrow> npfloat) \<Rightarrow> int list \<Rightarrow> pstate \<Rightarrow> pstate" where
  "after_cluster nv col its st =
     st\<lparr>ifn_cnt := ifn_cnt st + 1,
        p_noise := p_noise st @ [(ifn_cnt st + 1, IntV nv)],
        p_echoes := p_echoes st @
          map (\<lambda>it. (ifn_cnt st + 1, it, IntV (cell_value (col it))))
              (filter (\<lambda>it. \<not> isnan (col it)) its)\<rparr>"

text \<open>
  A record that survives the round trip: no dense matrix is cached; between 0 and 65535
  frequencies; the noise list has one entry per frequency index, in order, labelled with that
  index; at most one echo per \<^verbatim>\<open>[ifn, it]\<close>; every echo has a frequency index in
  \<open>[0, nfrequences)\<close> and a height index in \<open>[0, nheights)\<close>, below \<open>2^16\<close> and other than 1;
  every noise value and every amplitude is a Python int in \<open>[0, 2^15)\<close>.
\<close>

definition encodable :: "ionogram \<Rightarrow> bool" where
  "encodable r \<longleftrightarrow>
     \<not> np_any (ionogram_matrix r)
     \<and> 0 \<le> nfrequences r \<and> nfrequences r \<le> 65535 \<and> 0 \<le> nheights r
     \<and> length (noise r) = nat (nfrequences r)
     \<and> (\<forall>i<length (noise r). fst (noise r ! i) = int i
           \<and> (\<exists>z. snd (noise r ! i) = IntV z \<and> 0 \<le> z \<and> z < 32768))
     \<and> distinct (map echo_key (echoes r))
     \<and> (\<forall>e\<in>set (echoes r).
           0 \<le> fst e \<and> fst e < nfrequences r
         \<and> 0 \<le> fst (snd e) \<and> fst (snd e) < nheights r \<and> fst (snd e) \<noteq> 1 \<and> fst (snd e) < 65536
         \<and> (\<exists>z. snd (snd e) = IntV z \<and> 0 \<le> z \<and> z < 32768))"

text \<open>
  Records that do not survive it: one whose only echo, at height index 2, has amplitude
  \<open>2^15\<close>, and one with two echoes at the same position.
\<close>

definition high_amp_example :: ionogram where
  "high_amp_example = loaded_example\<lparr>echoes := [(0, 2, IntV 32768)], nheights := 3,
     imaxheight := NpInt 2\<rparr>"

definition twin_echo_example :: ionogram where
  "twin_echo_example = loaded_example\<lparr>echoes := [(0, 2, IntV 7), (0, 2, IntV 9)], nheights := 3,
     imaxheight := NpInt 2\<rparr>"

section \<open>The decoding loop\<close>

lemma and_exp_bit: "(k::int) AND 2 ^ n = (if bit k n then 2 ^ n else 0)"
  by (rule bit_eqI) (auto simp: bit_and_iff bit_exp_iff)

lemma and_128_bit: "(k::int) AND 128 = (if bit k 7 then 128 else 0)"
  using and_exp_bit[of k 7] by simp

lemma bit7_iff: "0 \<le> k \<Longrightarrow> k < 256 \<Longrightarrow> bit (k::int) 7 = (128 \<le> k)"
  unfolding bit_iff_odd by simp presburger

lemma and128: "uint (b::byte) AND 128 = (if 128 \<le> uint b then 128 else 0)"
proof -
  have "uint b < 256" using uint_bounded[of b] by simp
  then show ?thesis using bit7_iff[of "uint b"] and_128_bit[of "uint b"] by simp
qed

lemma check_new_cluster_iff:
  "check_new_cluster v cluster_flag \<longleftrightarrow> (v \<noteq> [] \<and> 128 \<le> uint (hd v))"
proof (cases v)
  case Nil
  then show ?thesis
    by (simp add: check_new_cluster_def cluster_flag_def to_bytes_def from_bytes_def)
next
  case (Cons b bs)
  then show ?thesis
    by (simp add: check_new_cluster_def cluster_flag_def to_bytes_def from_bytes_def and128)
qed

lemma parse_loop_groups: "parse_loop st body = foldl parse_group st (groups body)"
  by (induction st body rule: parse_loop.induct) simp_all

lemma parse_group_header:
  "is_header g \<Longrightarrow> ifn_cnt (parse_group st g) = ifn_cnt st + 1 \<and>
     p_noise (parse_group st g) = p_noise st \<and> p_echoes (parse_group st g) = p_echoes st"
  by (simp add: parse_group_def is_header_def Let_def)

lemma parse_group_sample:
  "\<not> is_header g \<Longrightarrow> parse_group st g =
     (if group_it g = 1 then st\<lparr>p_noise := p_noise st @ [(ifn_cnt st, IntV (group_amp g))]\<rparr>
      else st\<lparr>p_echoes := p_echoes st @ [(ifn_cnt st, group_it g, IntV (group_amp g))]\<rparr>)"
  by (simp add: parse_group_def is_header_def Let_def group_it_def group_amp_def)

lemma headers_before_snoc:
  "i \<le> length gs \<Longrightarrow> headers_before (gs @ [g]) i = headers_before gs i"
  by (simp add: headers_before_def)

lemma noise_samples_snoc:
  "noise_samples c (gs @ [g]) = noise_samples c gs @
     (if \<not> is_header g \<and> group_it g = 1
      then [(c + headers_before gs (length gs), IntV (group_amp g))] else [])"
proof -
  have f: "filter (\<lambda>i. \<not> is_header ((gs @ [g]) ! i) \<and> group_it ((gs @ [g]) ! i) = 1) [0..<length gs]
         = filter (\<lambda>i. \<not> is_header (gs ! i) \<and> group_it (gs ! i) = 1) [0..<length gs]"
    by (rule filter_cong) (auto simp: nth_append)
  have m: "map (\<lambda>i. (c + headers_before (gs @ [g]) i, IntV (group_amp ((gs @ [g]) ! i))))
             (filter (\<lambda>i. \<not> is_header (gs ! i) \<and> group_it (gs ! i) = 1) [0..<length gs])
         = map (\<lambda>i. (c + headers_before gs i, IntV (group_amp (gs ! i))))
             (filter (\<lambda>i. \<not> is_header (gs ! i) \<and> group_it (gs ! i) = 1) [0..<length gs])"
    by (rule map_cong) (auto simp: nth_append headers_before_snoc)
  show ?thesis
    unfolding noise_samples_def
    by (simp add: f m headers_before_snoc)
qed

lemma echo_samples_snoc:
  "echo_samples c (gs @ [g]) = echo_samples c gs @
     (if \<not> is_header g \<and> group_it g \<noteq> 1
      then [(c + headers_before gs (length gs), group_it g, IntV (group_amp g))] else [])"
proof -
  have f: "filter (\<lambda>i. \<not> is_header ((gs @ [g]) ! i) \<and> group_it ((gs @ [g]) ! i) \<noteq> 1) [0..<length gs]
         = filter (\<lambda>i. \<not> is_header (gs ! i) \<and> group_it (gs ! i) \<noteq> 1) [0..<length gs]"
    by (rule filter_cong) (auto simp: nth_append)
  have m: "map (\<lambda>i. (c + headers_before (gs @ [g]) i, group_it ((gs @ [g]) ! i), IntV (group_amp ((gs @ [g]) ! i))))
             (filter (\<lambda>i. \<not> is_header (gs ! i) \<and> group_it (gs ! i) \<noteq> 1) [0..<length gs])
         = map (\<lambda>i. (c + headers_before gs i, group_it (gs ! i), IntV (group_amp (gs ! i))))
             (filter (\<lambda>i. \<not> is_header (gs ! i) \<and> group_it (gs ! i) \<noteq> 1) [0..<length gs])"
    by (rule map_cong) (auto simp: nth_append headers_before_snoc)
  show ?thesis
    unfolding echo_samples_def
    by (simp add: f m headers_before_snoc)
qed

lemma headers_before_length_snoc:
  "headers_before (gs @ [g]) (Suc (length gs)) = headers_before gs (length gs) + (if is_header g then 1 else 0)"
  by (simp add: headers_before_def)

lemma foldl_parse_group:
  "ifn_cnt (foldl parse_group st gs) = ifn_cnt st + headers_before gs (length gs) \<and>
   p_noise (foldl parse_group st gs) = p_noise st @ noise_samples (ifn_cnt st) gs \<and>
   p_echoes (foldl parse_group st gs) = p_echoes st @ echo_samples (ifn_cnt st) gs"
proof (induction gs rule: rev_induct)
  case Nil
  then show ?case by (simp add: headers_before_def noise_samples_def echo_samples_def)
next
  case (snoc g gs)
  show ?case
  proof (cases "is_header g")
    case True
    then show ?thesis using snoc parse_group_header[OF True, of "foldl parse_group st gs"]
      by (simp add: noise_samples_snoc echo_samples_snoc headers_before_length_snoc)
  next
    case False
    then show ?thesis using snoc
      by (simp add: parse_group_sample noise_samples_snoc echo_samples_snoc headers_before_length_snoc)
  qed
qed

lemma groups_append:
  "length body mod 4 = 0 \<Longrightarrow> groups (body @ g) = groups body @ groups g"
proof (induction body rule: groups.induct)
  case 1
  then show ?case by simp
next
  case (2 b bs)
  from 2(2) have len: "length bs \<ge> 3"
    by (cases bs rule: list.exhaust; cases "tl bs"; cases "tl (tl bs)") auto
  then have "length (drop 3 bs) mod 4 = 0" using 2(2) 
    by (simp add: mod_eq_0_iff_dvd) presburger
  then have "groups (drop 3 bs @ g) = groups (drop 3 bs) @ groups g" by (rule 2(1))
  then show ?case using len by simp
qed

lemma groups_single: "g \<noteq> [] \<Longrightarrow> length g \<le> 4 \<Longrightarrow> groups g = [g]"
  by (cases g) simp_all

lemma parse_loop_snoc:
  "length body mod 4 = 0 \<Longrightarrow> g \<noteq> [] \<Longrightarrow> length g \<le> 4 \<Longrightarrow>
   parse_loop st (body @ g) = parse_group (parse_loop st body) g"
  by (simp add: parse_loop_groups groups_append groups_single)

lemma headers_before_none:
  "\<forall>j<i. \<not> is_header (gs ! j) \<Longrightarrow> i \<le> length gs \<Longrightarrow> headers_before gs i = 0"
  by (auto simp: headers_before_def filter_empty_conv in_set_conv_nth)

lemmas decode_eval = parse_ionogram_def parse_group_def check_new_cluster_def cluster_flag_def
  to_bytes_def from_bytes_def

section \<open>Properties of the decoder\<close>

text \<open>
  C6. Decoding the scenario body on a fresh object gives noise \<open>[(0, 5)]\<close> and echoes
  \<open>[(0, 10, 42)]\<close>, and nothing is printed. In general, when a body of whole groups is extended
  by one more group that is not a cluster header, the decoder appends that group's sample to the
  noise list if its second 16-bit big-endian value is 1 and to the echo list otherwise, labelled
  with the number of headers seen so far minus 1; the other list is unchanged.
\<close>

theorem decode_scenario_and_dispatch:
  "parse_ionogram init_ionogram scenario_body
     = (init_ionogram\<lparr>noise := [(0, IntV 5)], echoes := [(0, 10, IntV 42)]\<rparr>, [])
   \<and> (length body mod 4 = 0 \<and> g \<noteq> [] \<and> length g \<le> 4
        \<and> \<not> check_new_cluster (take 2 g) cluster_flag \<longrightarrow>
      (let before = fst (parse_ionogram r body);
           after = fst (parse_ionogram r (body @ g));
           c = headers_before (groups body) (length (groups body)) - 1
       in if from_bytes (take 2 (drop 2 g)) = 1
          then noise after = noise before @ [(c, IntV (from_bytes (take 2 g)))]
               \<and> echoes after = echoes before
          else echoes after = echoes before @
                 [(c, from_bytes (take 2 (drop 2 g)), IntV (from_bytes (take 2 g)))]
               \<and> noise after = noise before))"
proof (intro conjI impI)
  show "parse_ionogram init_ionogram scenario_body
     = (init_ionogram\<lparr>noise := [(0, IntV 5)], echoes := [(0, 10, IntV 42)]\<rparr>, [])"
    by (simp add: decode_eval scenario_body_def init_ionogram_def)
next
  assume a: "length body mod 4 = 0 \<and> g \<noteq> [] \<and> length g \<le> 4
        \<and> \<not> check_new_cluster (take 2 g) cluster_flag"
  let ?st0 = "\<lparr>ifn_cnt = -1, p_noise = noise r, p_echoes = echoes r, p_out = []\<rparr>"
  have s: "parse_loop ?st0 (body @ g) = parse_group (parse_loop ?st0 body) g"
    using a by (simp add: parse_loop_snoc)
  have nh: "\<not> is_header g" using a by (simp add: is_header_def)
  have c: "ifn_cnt (parse_loop ?st0 body) = headers_before (groups body) (length (groups body)) - 1"
    using foldl_parse_group[of ?st0 "groups body"] by (simp add: parse_loop_groups)
  show "(let before = fst (parse_ionogram r body);
           after = fst (parse_ionogram r (body @ g));
           c = headers_before (groups body) (length (groups body)) - 1
       in if from_bytes (take 2 (drop 2 g)) = 1
          then noise after = noise before @ [(c, IntV (from_bytes (take 2 g)))]
               \<and> echoes after = echoes before
          else echoes after = echoes before @
                 [(c, from_bytes (take 2 (drop 2 g)), IntV (from_bytes (take 2 g)))]
               \<and> noise after = noise before)"
    unfolding parse_ionogram_def Let_def s
    using c by (simp add: parse_group_sample[OF nh] group_it_def group_amp_def)
qed

text \<open>The dispatch at a concrete body and group: one header, then the echo group.\<close>

theorem decode_scenario_and_dispatch_witness:
  "parse_ionogram init_ionogram scenario_body
     = (init_ionogram\<lparr>noise := [(0, IntV 5)], echoes := [(0, 10, IntV 42)]\<rparr>, [])
   \<and> length [0x80, 0x01, 0x00, 0x01 :: byte] mod 4 = 0 \<and> [0x00, 0x2A, 0x00, 0x0A :: byte] \<noteq> []
   \<and> length [0x00, 0x2A, 0x00, 0x0A :: byte] \<le> 4
   \<and> \<not> check_new_cluster (take 2 [0x00, 0x2A, 0x00, 0x0A]) cluster_flag
   \<and> echoes (fst (parse_ionogram init_ionogram ([0x80, 0x01, 0x00, 0x01] @ [0x00, 0x2A, 0x00, 0x0A])))
       = echoes (fst (parse_ionogram init_ionogram [0x80, 0x01, 0x00, 0x01])) @ [(0, 10, IntV 42)]"
proof -
  have h: "length [0x80, 0x01, 0x00, 0x01 :: byte] mod 4 = 0 \<and> [0x00, 0x2A, 0x00, 0x0A :: byte] \<noteq> []
     \<and> length [0x00, 0x2A, 0x00, 0x0A :: byte] \<le> 4
     \<and> \<not> check_new_cluster (take 2 [0x00, 0x2A, 0x00, 0x0A]) cluster_flag"
    by (simp add: check_new_cluster_def cluster_flag_def to_bytes_def from_bytes_def)
  have v: "headers_before (groups [0x80, 0x01, 0x00, 0x01]) (length (groups [0x80, 0x01, 0x00, 0x01 :: byte])) - 1 = 0"
    by (simp add: headers_before_def is_header_def check_new_cluster_def cluster_flag_def to_bytes_def from_bytes_def)
  show ?thesis
    using decode_scenario_and_dispatch[of "[0x80, 0x01, 0x00, 0x01]" "[0x00, 0x2A, 0x00, 0x0A]" init_ionogram] h
    unfolding Let_def v
    by (simp add: from_bytes_def)
qed

text \<open>
  C9. The frequency index of every decoded noise and echo sample is the number of cluster
  headers among the groups before it, minus 1: the decoded lists are exactly the non-header
  groups in body order with that label, whatever 15-bit value the headers carry. Hence a
  non-header group with no header before it gets the frequency index -1.
\<close>

theorem decode_frequency_index:
  "noise (fst (parse_ionogram r body)) = noise r @
     map (\<lambda>i. (headers_before (groups body) i - 1, IntV (group_amp (groups body ! i))))
       (filter (\<lambda>i. \<not> is_header (groups body ! i) \<and> group_it (groups body ! i) = 1)
          [0..<length (groups body)])
   \<and> echoes (fst (parse_ionogram r body)) = echoes r @
     map (\<lambda>i. (headers_before (groups body) i - 1, group_it (groups body ! i),
               IntV (group_amp (groups body ! i))))
       (filter (\<lambda>i. \<not> is_header (groups body ! i) \<and> group_it (groups body ! i) \<noteq> 1)
          [0..<length (groups body)])
   \<and> (\<forall>i<length (groups body). (\<forall>j<i. \<not> is_header (groups body ! j)) \<longrightarrow>
         headers_before (groups body) i - 1 = -1)"
proof -
  let ?st0 = "\<lparr>ifn_cnt = -1, p_noise = noise r, p_echoes = echoes r, p_out = []\<rparr>"
  have "p_noise (parse_loop ?st0 body) = noise r @ noise_samples (-1) (groups body)"
    and "p_echoes (parse_loop ?st0 body) = echoes r @ echo_samples (-1) (groups body)"
    using foldl_parse_group[of ?st0 "groups body"] by (simp_all add: parse_loop_groups)
  then show ?thesis
    by (simp add: parse_ionogram_def Let_def noise_samples_def echo_samples_def headers_before_none)
qed

text \<open>Two samples before the first header, both labelled -1, and one after it.\<close>

theorem decode_frequency_index_witness:
  "\<not> is_header (groups [0, 7, 0, 3,  0, 8, 0, 1,  0x80, 5, 0, 1,  0, 9, 0, 2] ! 0)
   \<and> headers_before (groups [0, 7, 0, 3,  0, 8, 0, 1,  0x80, 5, 0, 1,  0, 9, 0, 2]) 1 - 1 = -1
   \<and> noise (fst (parse_ionogram init_ionogram [0, 7, 0, 3,  0, 8, 0, 1,  0x80, 5, 0, 1,  0, 9, 0, 2]))
       = [(-1, IntV 8)]
   \<and> echoes (fst (parse_ionogram init_ionogram [0, 7, 0, 3,  0, 8, 0, 1,  0x80, 5, 0, 1,  0, 9, 0, 2]))
       = [(-1, 3, IntV 7), (0, 2, IntV 9)]"
proof -
  let ?b = "[0, 7, 0, 3,  0, 8, 0, 1,  0x80, 5, 0, 1,  0, 9, 0, 2] :: byte list"
  have h: "\<forall>j<1. \<not> is_header (groups ?b ! j)"
    by (simp add: is_header_def check_new_cluster_def cluster_flag_def to_bytes_def from_bytes_def)
  have l: "(1::nat) < length (groups ?b)" by simp
  from decode_frequency_index[of init_ionogram ?b] h l
  have "headers_before (groups ?b) 1 - 1 = -1" by blast
  moreover have "noise (fst (parse_ionogram init_ionogram ?b)) = [(-1, IntV 8)]"
    by (simp add: decode_eval init_ionogram_def)
  moreover have "echoes (fst (parse_ionogram init_ionogram ?b)) = [(-1, 3, IntV 7), (0, 2, IntV 9)]"
    by (simp add: decode_eval init_ionogram_def)
  ultimately show ?thesis using h by simp
qed

section \<open>Window enumeration of the accumulation engine\<close>

lemma for_each_Inr_all:
  "(\<And>x. x \<in> set xs \<Longrightarrow> f x = Inr (g x)) \<Longrightarrow> for_each xs f = Inr (concat (map g xs))"
  by (induction xs) simp_all

lemma range5: "py_range3 0 60 5 = Inr [0, 5, 10, 15, 20, 25, 30, 35, 40, 45, 50, 55]"
  by (simp add: py_range3_def upt_rec)

lemma range_year: "py_range2 2020 2021 = [2020]"
  by (simp add: py_range2_def)

lemma range_one: "py_range2 1 2 = [1]"
  by (simp add: py_range2_def)

lemma hours_loop:
  "for_each (py_range2 0 24) (\<lambda>h. bind (py_range3 0 60 5) (\<lambda>ms.
                 for_each ms (\<lambda>m. Inr [(2020::int, 1::int, 1::int, h, m, m + 5)])))
        = Inr day_jobs"
  unfolding day_jobs_def
  by (rule for_each_Inr_all) (simp add: range5 bind_def hour_jobs_def)

lemma window_jobs_day: "window_jobs [2020, 1, 1] [2020, 1, 1] 5 = Inr day_jobs"
proof -
  have i0: "py_index [2020, 1, 1 :: int] 0 = Inr 2020" by (simp add: py_index_def)
  have i1: "py_index [2020, 1, 1 :: int] 1 = Inr 1" by (simp add: py_index_def)
  have i2: "py_index [2020, 1, 1 :: int] 2 = Inr 1" by (simp add: py_index_def)
  have b: "\<And>v f. bind (Inr v) f = f v" by (simp add: bind_def)
  show ?thesis
    unfolding window_jobs_def i0 i1 i2 b
    by (simp add: range_year range_one hours_loop)
qed

lemma length_day_jobs: "length day_jobs = 288"
  by (simp add: day_jobs_def hour_jobs_def length_concat comp_def sum_list_triv py_range2_def)

lemma minutes_set:
  "(m::int) \<in> set [0, 5, 10, 15, 20, 25, 30, 35, 40, 45, 50, 55] \<longleftrightarrow> 0 \<le> m \<and> m < 60 \<and> m mod 5 = 0"
  by simp presburger

lemma hours_set: "h \<in> set (py_range2 0 24) \<longleftrightarrow> 0 \<le> h \<and> h < 24"
proof
  assume "h \<in> set (py_range2 0 24)"
  then show "0 \<le> h \<and> h < 24" by (auto simp: py_range2_def)
next
  assume a: "0 \<le> h \<and> h < 24"
  then have "nat h \<in> {0..<24}" by auto
  then have "int (nat h) \<in> int ` {0..<24}" by (rule imageI)
  then show "h \<in> set (py_range2 0 24)" using a by (simp add: py_range2_def)
qed

lemma distinct_hours: "distinct (py_range2 0 24)"
  by (simp add: py_range2_def distinct_map inj_on_def)

lemma distinct_hour_jobs: "distinct (hour_jobs h)"
  by (simp add: hour_jobs_def)

lemma hour_jobs_hour: "j \<in> set (hour_jobs h) \<Longrightarrow> fst (snd (snd (snd j))) = h"
  by (auto simp: hour_jobs_def)

lemma hour_jobs_inj: "hour_jobs h = hour_jobs h' \<Longrightarrow> h = h'"
  by (simp add: hour_jobs_def)

lemma distinct_day_jobs: "distinct day_jobs"
  unfolding day_jobs_def
proof (rule distinct_concat)
  show "distinct (map hour_jobs (py_range2 0 24))"
    using distinct_hours hour_jobs_inj by (simp add: distinct_map inj_on_def)
next
  fix ys assume "ys \<in> set (map hour_jobs (py_range2 0 24))"
  then show "distinct ys" using distinct_hour_jobs by auto
next
  fix ys zs
  assume "ys \<in> set (map hour_jobs (py_range2 0 24))"
    and "zs \<in> set (map hour_jobs (py_range2 0 24))"
    and ne: "ys \<noteq> zs"
  then obtain h h' where y: "ys = hour_jobs h" and z: "zs = hour_jobs h'" by auto
  from ne y z have "h \<noteq> h'" by auto
  then show "set ys \<inter> set zs = {}" unfolding y z using hour_jobs_hour by blast
qed

lemma set_day_jobs:
  "set day_jobs = {(2020, 1, 1, h, m, m + 5) | h m. 0 \<le> h \<and> h < 24 \<and> 0 \<le> m \<and> m < 60 \<and> m mod 5 = 0}"
proof -
  have "set day_jobs = (\<Union>h\<in>set (py_range2 0 24). (\<lambda>m. (2020, 1, 1, h, m, m + 5)) ` set [0, 5, 10, 15, 20, 25, 30, 35, 40, 45, 50, 55])"
    unfolding day_jobs_def hour_jobs_def by (simp only: set_concat set_map image_image) 
  also have "\<dots> = {(2020, 1, 1, h, m, m + 5) | h m. h \<in> set (py_range2 0 24) \<and> m \<in> set [0, 5, 10, 15, 20, 25, 30, 35, 40, 45, 50, 55]}"
    by blast
  finally show ?thesis unfolding minutes_set hours_set by simp
qed

text \<open>
  C8. With \<^verbatim>\<open>date_from = date_to = [2020, 1, 1]\<close> and a window of 5 minutes, the enumeration of
  \<^verbatim>\<open>main\<close> raises nothing and produces exactly 288 = 24 * 12 jobs, all different: one
  \<open>(2020, 1, 1, h, m, m + 5)\<close> for each hour \<open>h\<close> in 0..23 and each window start \<open>m\<close> in
  0, 5, ..., 55.
\<close>

theorem window_enumeration_one_day:
  "\<exists>jobs. main_args [2020, 1, 1] [2020, 1, 1] 5 = Inr jobs
     \<and> length jobs = 288 \<and> length jobs = 24 * 12 \<and> distinct jobs
     \<and> set jobs = {(2020, 1, 1, h, m, m + 5) | h m.
                      0 \<le> h \<and> h < 24 \<and> 0 \<le> m \<and> m < 60 \<and> m mod 5 = 0}"
proof -
  have "main_args [2020, 1, 1] [2020, 1, 1] 5 = Inr day_jobs"
    by (simp add: main_args_def window_jobs_day bind_def length_day_jobs)
  then show ?thesis
    using length_day_jobs distinct_day_jobs set_day_jobs by simp
qed

section \<open>Calibration, writing and equality\<close>

text \<open>
  C7. When the derivation at the end of \<^verbatim>\<open>__parse_passport\<close> raises nothing, \<^verbatim>\<open>maxheight\<close> is
  \<open>light_velocity * band_width / chirp_rate / 1000\<close> if the mode is the two-character string
  U+041D U+0417 (the Cyrillic letters En and Ze, code points 1053 and 1047), and that value
  divided by 2 for every other mode; \<open>light_velocity\<close> is 3.0e8.
\<close>

theorem maxheight_by_mode:
  "fst (derive_geometry r) = None \<Longrightarrow>
     light_velocity = 3 * 10 ^ 8 \<and>
     maxheight (snd (derive_geometry r)) =
       (if par_mode r = [1053, 1047]
        then light_velocity * of_int (par_band_width r) / of_int (par_chirp_rate r) / 1000
        else light_velocity * of_int (par_band_width r) / of_int (par_chirp_rate r) / 1000 / 2)"
  by (auto simp: derive_geometry_def py_div_def Let_def light_velocity_def mode_NZ_def
      split: if_splits)

text \<open>
  Band width 5 and chirp rate 500: 3000 for the mode U+041D U+0417, and 1500 for the mode
  U+0412 U+0417, for the empty mode and for the reversed string.
\<close>

theorem maxheight_by_mode_witness:
  "fst (derive_geometry (init_ionogram\<lparr>par_mode := [1053, 1047], par_freq0 := 4000,
        par_freqN := 30000, par_freq_step := 50, par_chirp_rate := 500, par_band_width := 5\<rparr>)) = None
   \<and> maxheight (snd (derive_geometry (init_ionogram\<lparr>par_mode := [1053, 1047], par_freq0 := 4000,
        par_freqN := 30000, par_freq_step := 50, par_chirp_rate := 500, par_band_width := 5\<rparr>))) = 3000
   \<and> fst (derive_geometry (init_ionogram\<lparr>par_mode := [1042, 1047], par_freq0 := 4000,
        par_freqN := 30000, par_freq_step := 50, par_chirp_rate := 500, par_band_width := 5\<rparr>)) = None
   \<and> maxheight (snd (derive_geometry (init_ionogram\<lparr>par_mode := [1042, 1047], par_freq0 := 4000,
        par_freqN := 30000, par_freq_step := 50, par_chirp_rate := 500, par_band_width := 5\<rparr>))) = 1500
   \<and> maxheight (snd (derive_geometry (init_ionogram\<lparr>par_mode := [], par_freq0 := 4000,
        par_freqN := 30000, par_freq_step := 50, par_chirp_rate := 500, par_band_width := 5\<rparr>))) = 1500
   \<and> maxheight (snd (derive_geometry (init_ionogram\<lparr>par_mode := [1047, 1053], par_freq0 := 4000,
        par_freqN := 30000, par_freq_step := 50, par_chirp_rate := 500, par_band_width := 5\<rparr>))) = 1500"
proof -
  let ?r = "\<lambda>m. init_ionogram\<lparr>par_mode := m, par_freq0 := 4000, par_freqN := 30000,
        par_freq_step := 50, par_chirp_rate := 500, par_band_width := 5\<rparr>"
  have ok: "fst (derive_geometry (?r m)) = None" for m
    by (simp add: derive_geometry_def py_div_def Let_def init_ionogram_def)
  have "maxheight (snd (derive_geometry (?r [1053, 1047]))) = 3000"
    using maxheight_by_mode[OF ok, of "[1053, 1047]"] by (simp add: init_ionogram_def)
  moreover have "maxheight (snd (derive_geometry (?r [1042, 1047]))) = 1500"
    using maxheight_by_mode[OF ok, of "[1042, 1047]"] by (simp add: init_ionogram_def)
  moreover have "maxheight (snd (derive_geometry (?r []))) = 1500"
    using maxheight_by_mode[OF ok, of "[]"] by (simp add: init_ionogram_def)
  moreover have "maxheight (snd (derive_geometry (?r [1047, 1053]))) = 1500"
    using maxheight_by_mode[OF ok, of "[1047, 1053]"] by (simp add: init_ionogram_def)
  ultimately show ?thesis using ok by simp
qed

text \<open>
  C10. \<^verbatim>\<open>writeion\<close> on an object that was never loaded raises nothing and leaves the object and
  every file as they were, whatever the file name and the rewrite flag; so does \<^verbatim>\<open>writeion\<close> with
  \<^verbatim>\<open>rewrite=False\<close> on a path that is an existing file. (Both print a message.)
\<close>

theorem writeion_early_returns:
  "(\<not> ionogram_loaded r \<longrightarrow>
      fst (writeion passport r filename rewrite w) = None
      \<and> fst (snd (writeion passport r filename rewrite w)) = r
      \<and> files (snd (snd (writeion passport r filename rewrite w))) = files w)
   \<and> (files w fn \<noteq> None \<longrightarrow>
      fst (writeion passport r (Some fn) False w) = None
      \<and> fst (snd (writeion passport r (Some fn) False w)) = r
      \<and> files (snd (snd (writeion passport r (Some fn) False w))) = files w)"
  by (simp add: writeion_def print_def)

text \<open>An unloaded object with a fresh path, and a loaded one with an existing file.\<close>

theorem writeion_early_returns_witness:
  "\<not> ionogram_loaded init_ionogram
   \<and> fst (writeion (\<lambda>r. Inr []) init_ionogram (Some ''out.dat'') True \<lparr>files = Map.empty, stdout = []\<rparr>) = None
   \<and> files (snd (snd (writeion (\<lambda>r. Inr []) init_ionogram (Some ''out.dat'') True
        \<lparr>files = Map.empty, stdout = []\<rparr>))) = Map.empty
   \<and> files \<lparr>files = [''out.dat'' \<mapsto> [1, 2, 3]], stdout = []\<rparr> ''out.dat'' \<noteq> None
   \<and> ionogram_loaded loaded_example
   \<and> fst (writeion (\<lambda>r. Inr []) loaded_example (Some ''out.dat'') False
        \<lparr>files = [''out.dat'' \<mapsto> [1, 2, 3]], stdout = []\<rparr>) = None
   \<and> files (snd (snd (writeion (\<lambda>r. Inr []) loaded_example (Some ''out.dat'') False
        \<lparr>files = [''out.dat'' \<mapsto> [1, 2, 3]], stdout = []\<rparr>))) = [''out.dat'' \<mapsto> [1, 2, 3]]"
proof -
  have n: "\<not> ionogram_loaded init_ionogram" by (simp add: init_ionogram_def)
  have l: "ionogram_loaded loaded_example" by (simp add: loaded_example_def init_ionogram_def)
  have f: "files \<lparr>files = [''out.dat'' \<mapsto> [1, 2, 3 :: byte]], stdout = []\<rparr> ''out.dat'' \<noteq> None" by simp
  show ?thesis
    using writeion_early_returns[where r = init_ionogram and passport = "\<lambda>r. Inr []"
            and filename = "Some ''out.dat''" and rewrite = True
            and w = "\<lparr>files = Map.empty, stdout = []\<rparr>" and fn = "''out.dat''"]
          writeion_early_returns[where r = loaded_example and passport = "\<lambda>r. Inr []"
            and filename = None and rewrite = True
            and w = "\<lparr>files = [''out.dat'' \<mapsto> [1, 2, 3]], stdout = []\<rparr>" and fn = "''out.dat''"]
          n l f
    by simp
qed

text \<open>
  C5. The comparison does not return a boolean on loaded records: for two objects whose
  \<^verbatim>\<open>imaxheight\<close> comes from \<^verbatim>\<open>readion_binary\<close> and that have no attribute \<^verbatim>\<open>delay\<close> (the class never
  assigns one), \<^verbatim>\<open>__eq__\<close> raises AttributeError at its last check.
\<close>

theorem eq_raises_attribute_error:
  "imaxheight a = NpInt i \<Longrightarrow> imaxheight b = NpInt j \<Longrightarrow> attr_delay a = None \<Longrightarrow>
     ionogram_eq a b = Inl AttributeError"
  by (simp add: ionogram_eq_def Let_def)

text \<open>A loaded record compared with itself.\<close>

theorem eq_raises_attribute_error_witness:
  "imaxheight loaded_example = NpInt 10 \<and> attr_delay loaded_example = None
   \<and> ionogram_eq loaded_example loaded_example = Inl AttributeError"
proof -
  have h: "imaxheight loaded_example = NpInt 10" and d: "attr_delay loaded_example = None"
    by (simp_all add: loaded_example_def init_ionogram_def)
  from eq_raises_attribute_error[OF h h d] h d show ?thesis by simp
qed

section \<open>Scalar division\<close>

lemma argmax_from_first_max:
  "bi < length pre \<Longrightarrow> bv = pre ! bi \<Longrightarrow> (\<forall>j<length pre. pre ! j \<le> bv) \<Longrightarrow>
   (\<forall>j<bi. pre ! j < bv) \<Longrightarrow> is_first_max (pre @ xs) (argmax_from xs (length pre) bi bv)"
proof (induction xs arbitrary: pre bi bv)
  case Nil
  then show ?case by (simp add: is_first_max_def)
next
  case (Cons x xs)
  show ?case
  proof (cases "bv < x")
    case True
    have "is_first_max ((pre @ [x]) @ xs) (argmax_from xs (length (pre @ [x])) (length pre) x)"
    proof (rule Cons.IH)
      have le: "\<And>j. j < length pre \<Longrightarrow> pre ! j \<le> bv" using Cons.prems(3) by blast
      have lt: "\<And>j. j < length pre \<Longrightarrow> pre ! j < x" using le True by fastforce
      show "\<forall>j<length (pre @ [x]). (pre @ [x]) ! j \<le> x"
        using lt by (auto simp: nth_append less_Suc_eq order.strict_implies_order)
      show "\<forall>j<length pre. (pre @ [x]) ! j < x"
        using lt by (auto simp: nth_append)
    qed simp_all
    then show ?thesis using True by simp
  next
    case False
    have "is_first_max ((pre @ [x]) @ xs) (argmax_from xs (length (pre @ [x])) bi bv)"
    proof (rule Cons.IH)
      show "bi < length (pre @ [x])" using Cons.prems by simp
      show "bv = (pre @ [x]) ! bi" using Cons.prems by (simp add: nth_append)
      show "\<forall>j<length (pre @ [x]). (pre @ [x]) ! j \<le> bv"
        using Cons.prems False by (auto simp: nth_append less_Suc_eq)
      show "\<forall>j<bi. (pre @ [x]) ! j < bv"
        using Cons.prems by (auto simp: nth_append)
    qed
    then show ?thesis using False by simp
  qed
qed

lemma np_argmax_first_max:
  "hs \<noteq> [] \<Longrightarrow> \<exists>m. np_argmax hs = Inr m \<and> is_first_max hs m"
proof (cases hs)
  case Nil
  then show "hs \<noteq> [] \<Longrightarrow> ?thesis" by simp
next
  case (Cons x rest)
  have "is_first_max ([x] @ rest) (argmax_from rest (length [x]) 0 x)"
    by (rule argmax_from_first_max) simp_all
  then show ?thesis using Cons by (simp add: np_argmax_def)
qed

lemma nth_enumerate_list: "i < length xs \<Longrightarrow> enumerate_list xs ! i = (i, xs ! i)"
  by (simp add: enumerate_list_def)

lemma length_enumerate_list: "length (enumerate_list xs) = length xs"
  by (simp add: enumerate_list_def)

text \<open>
  C2, as the code has it. For a record with at least one echo and a scalar \<open>k > 0\<close>, division
  returns a record with the same echoes in the same order, in which the echo at the first
  position of the largest height index (not of the largest amplitude) has amplitude 1, and every
  other echo has its amplitude reduced by \<open>20 * log10 k\<close>, replaced by NaN when the reduced value
  is negative.
\<close>

theorem truediv_reference_echo:
  assumes "echoes a \<noteq> []" and "0 < k"
  shows "\<exists>c m. truediv a k = Inr c \<and> length (echoes c) = length (echoes a)
     \<and> is_first_max (map (\<lambda>e. fst (snd e)) (echoes a)) m
     \<and> snd (snd (echoes c ! m)) = IntV 1
     \<and> (\<forall>i<length (echoes a).
          fst (echoes c ! i) = fst (echoes a ! i)
        \<and> fst (snd (echoes c ! i)) = fst (snd (echoes a ! i))
        \<and> (i \<noteq> m \<longrightarrow> snd (snd (echoes c ! i)) =
             (let v = fsub (to_float (snd (snd (echoes a ! i)))) (Fin (20 * log 10 k))
              in FloatV (if flt v (Fin 0) then NaN else v))))"
proof -
  let ?hs = "map (\<lambda>e. fst (snd e)) (echoes a)"
  from assms(1) have "?hs \<noteq> []" by simp
  from np_argmax_first_max[OF this] obtain m where
    am: "np_argmax ?hs = Inr m" and fm: "is_first_max ?hs m" by blast
  define db where "db = Fin (20 * log 10 k)"
  have dbk: "fscale 20 (np_log10 (Fin k)) = db" using assms(2) by (simp add: db_def)
  define ns where "ns = map (\<lambda>(f, v). let v' = fsub (to_float v) db
                                 in (f, if flt v' (Fin 0) then IntV 0 else FloatV v'))
                       (noise a)"
  define es where "es = map (\<lambda>(i, (f, h, a)).
                          let a' = (if i \<noteq> m then FloatV (fsub (to_float a) db) else IntV 1)
                          in (f, h, if flt (to_float a') (Fin 0) then FloatV NaN else a'))
                       (enumerate_list (echoes a))"
  have t: "truediv a k = Inr (a\<lparr>noise := ns, echoes := es\<rparr>)"
    unfolding truediv_def am dbk by (simp add: Let_def ns_def es_def)
  have len: "length es = length (echoes a)" by (simp add: es_def length_enumerate_list)
  have m_lt: "m < length (echoes a)" using fm by (simp add: is_first_max_def)
  have nth: "\<And>i. i < length (echoes a) \<Longrightarrow>
      es ! i = (case echoes a ! i of (f, h, x) \<Rightarrow>
                 let a' = (if i \<noteq> m then FloatV (fsub (to_float x) db) else IntV 1)
                 in (f, h, if flt (to_float a') (Fin 0) then FloatV NaN else a'))"
    by (simp add: es_def length_enumerate_list nth_enumerate_list)
  have at_m: "snd (snd (es ! m)) = IntV 1"
    using nth[OF m_lt] by (simp add: Let_def split: prod.splits)
  have others: "\<forall>i<length (echoes a).
          fst (es ! i) = fst (echoes a ! i)
        \<and> fst (snd (es ! i)) = fst (snd (echoes a ! i))
        \<and> (i \<noteq> m \<longrightarrow> snd (snd (es ! i)) =
             (let v = fsub (to_float (snd (snd (echoes a ! i)))) db
              in FloatV (if flt v (Fin 0) then NaN else v)))"
    using nth by (simp add: Let_def split: prod.splits)
  show ?thesis
    using t len fm at_m others unfolding db_def by auto
qed

text \<open>Division of the three-echo record by 10.\<close>

theorem truediv_reference_echo_witness:
  "echoes div_example \<noteq> [] \<and> (0::real) < 10
   \<and> is_first_max (map (\<lambda>e. fst (snd e)) (echoes div_example)) 1
   \<and> (\<exists>c. truediv div_example 10 = Inr c
        \<and> map (\<lambda>e. snd (snd e)) (echoes c) = [FloatV (Fin 30), IntV 1, FloatV NaN])"
proof -
  have h: "echoes div_example \<noteq> []" by (simp add: div_example_def)
  have k: "(0::real) < 10" by simp
  from truediv_reference_echo[OF h k] obtain c m where
    t: "truediv div_example 10 = Inr c" and "is_first_max (map (\<lambda>e. fst (snd e)) (echoes div_example)) m"
    by blast
  have f: "is_first_max (map (\<lambda>e. fst (snd e)) (echoes div_example)) 1"
    by (simp add: is_first_max_def div_example_def less_Suc_eq numeral_3_eq_3)
  have "truediv div_example 10 = Inr (div_example\<lparr>noise := [(0, IntV 0)],
           echoes := [(0, 10, FloatV (Fin 30)), (0, 20, IntV 1), (0, 5, FloatV NaN)]\<rparr>)"
    by (simp add: truediv_def div_example_def loaded_example_def init_ionogram_def np_argmax_def
        enumerate_list_def fsub_def upt_rec)
  with t have "map (\<lambda>e. snd (snd e)) (echoes c) = [FloatV (Fin 30), IntV 1, FloatV NaN]" by auto
  with t h k f show ?thesis by simp
qed

text \<open>
  C2 as stated fails: dividing the three-echo record by 1 leaves the echo of largest amplitude
  at 50 and sets the echo of largest height index to 1; dividing it by 10 turns the weak echo
  into NaN instead of 10 - 20.
\<close>

theorem truediv_max_amplitude_counterexample:
  "echoes div_example = [(0, 10, IntV 50), (0, 20, IntV 30), (0, 5, IntV 10)]
   \<and> truediv div_example 1 = Inr (div_example\<lparr>noise := [(0, FloatV (Fin 5))],
        echoes := [(0, 10, FloatV (Fin 50)), (0, 20, IntV 1), (0, 5, FloatV (Fin 10))]\<rparr>)
   \<and> truediv div_example 10 = Inr (div_example\<lparr>noise := [(0, IntV 0)],
        echoes := [(0, 10, FloatV (Fin 30)), (0, 20, IntV 1), (0, 5, FloatV NaN)]\<rparr>)"
  by (simp add: truediv_def div_example_def loaded_example_def init_ionogram_def np_argmax_def
        enumerate_list_def fsub_def upt_rec)
section \<open>The range of the power\<close>

lemma powr_quarter_le: "(10::real) powr (1 / 4) \<le> 17783 / 10000"
proof (rule ccontr)
  assume "\<not> (10::real) powr (1 / 4) \<le> 17783 / 10000"
  then have lt: "17783 / 10000 < (10::real) powr (1 / 4)" by simp
  have "(17783 / 10000 :: real) ^ 4 < (10 powr (1 / 4)) ^ 4"
    by (rule power_strict_mono[OF lt]) simp_all
  also have "((10::real) powr (1 / 4)) ^ 4 = 10" by (simp add: powr_power)
  finally show False by (simp add: power_divide)
qed

lemma powr_three_tenths_gt: "199 / 100 < (10::real) powr (3 / 10)"
proof (rule ccontr)
  assume "\<not> 199 / 100 < (10::real) powr (3 / 10)"
  then have le: "(10::real) powr (3 / 10) \<le> 199 / 100" by simp
  have "((10::real) powr (3 / 10)) ^ 10 \<le> (199 / 100) ^ 10"
    by (rule power_mono[OF le]) simp
  moreover have "((10::real) powr (3 / 10)) ^ 10 = 1000" by (simp add: powr_power)
  ultimately show False by (simp add: power_divide)
qed

lemma powr_6165: "(10::real) powr (6165 / 20) \<le> max_float"
proof -
  have "(10::real) powr (6165 / 20) = 10 powr (308 + 1 / 4)" by simp
  also have "\<dots> = 10 powr 308 * 10 powr (1 / 4)" by (rule powr_add)
  also have "(10::real) powr 308 = 10 ^ 308" by (simp add: powr_realpow[symmetric])
  also have "(10::real) ^ 308 * 10 powr (1 / 4) \<le> 10 ^ 308 * (17783 / 10000)"
    by (rule mult_left_mono[OF powr_quarter_le]) simp
  also have "\<dots> \<le> max_float" by (simp add: max_float_def)
  finally show ?thesis .
qed

lemma powr_6166: "max_float < (10::real) powr (6166 / 20)"
proof -
  have "max_float < (10::real) ^ 308 * (199 / 100)" by (simp add: max_float_def)
  also have "\<dots> < 10 ^ 308 * 10 powr (3 / 10)"
    by (rule mult_strict_left_mono[OF powr_three_tenths_gt]) simp
  also have "(10::real) ^ 308 = 10 powr 308" by (simp add: powr_realpow[symmetric])
  also have "(10::real) powr 308 * 10 powr (3 / 10) = 10 powr (308 + 3 / 10)"
    by (rule powr_add[symmetric])
  also have "\<dots> = 10 powr (6166 / 20)" by simp
  finally show ?thesis .
qed

lemma lin_int_overflow: "lin (IntV x) = Inl OverflowError \<longleftrightarrow> 6166 \<le> x"
proof
  assume "lin (IntV x) = Inl OverflowError"
  then have m: "max_float < 10 powr (of_int x / 20)" by (simp split: if_splits)
  show "6166 \<le> x"
  proof (rule ccontr)
    assume "\<not> 6166 \<le> x"
    then have "x \<le> 6165" by simp
    then have "(of_int x :: real) / 20 \<le> 6165 / 20" by simp
    then have "(10::real) powr (of_int x / 20) \<le> 10 powr (6165 / 20)"
      by (simp only: powr_le_cancel_iff) 
    with powr_6165 m show False by linarith
  qed
next
  assume "6166 \<le> x"
  then have "(6166::real) / 20 \<le> of_int x / 20" by simp
  then have "(10::real) powr (6166 / 20) \<le> 10 powr (of_int x / 20)"
    by (simp only: powr_le_cancel_iff)
  with powr_6166 have "max_float < 10 powr (of_int x / 20)" by linarith
  then show "lin (IntV x) = Inl OverflowError" by simp
qed

lemma lin_error: "lin v = Inl e \<Longrightarrow> e = OverflowError"
  by (cases v rule: lin.cases) (auto split: if_splits)

lemma lin_in_range: "in_range v \<Longrightarrow> \<exists>u. lin v = Inr u"
proof (cases "lin v")
  case (Inl e)
  assume r: "in_range v"
  from Inl have e: "e = OverflowError" by (rule lin_error)
  show ?thesis
  proof (cases v)
    case (IntV x)
    with Inl e lin_int_overflow[of x] r show ?thesis by (simp add: in_range_def)
  next
    case (FloatV f)
    with Inl show ?thesis by (cases f) (simp_all split: if_splits)
  qed
next
  case (Inr u)
  then show ?thesis by simp
qed

lemma dbsum_error: "dbsum x y = Inl e \<Longrightarrow> e = OverflowError"
  by (auto simp: dbsum_def split: sum.splits dest: lin_error)

lemma dbsum_in_range: "in_range x \<Longrightarrow> in_range y \<Longrightarrow> dbsum x y = Inr (db_level x y)"
proof -
  assume "in_range x" and "in_range y"
  then obtain u v where "lin x = Inr u" and "lin y = Inr v" using lin_in_range by blast
  then show ?thesis by (simp add: db_level_def dbsum_def)
qed

lemma in_range_float: "in_range (FloatV f)"
  by (simp add: in_range_def)

lemma fadd_commute: "fadd x y = fadd y x"
  by (cases x; cases y) simp_all

lemma fadd_overflow_commute: "fadd_overflow x y = fadd_overflow y x"
  by (cases x; cases y) (simp_all add: add.commute)

lemma dbsum_commute: "dbsum x y = dbsum y x"
proof (cases "lin x")
  case lx: (Inl e)
  then have e: "e = OverflowError" by (rule lin_error)
  show ?thesis
  proof (cases "lin y")
    case (Inl e')
    then have "e' = OverflowError" by (rule lin_error)
    with Inl lx e show ?thesis by (simp add: dbsum_def)
  next
    case (Inr v)
    with lx show ?thesis by (simp add: dbsum_def)
  qed
next
  case lx: (Inr u)
  show ?thesis
  proof (cases "lin y")
    case (Inl e')
    with lx show ?thesis by (simp add: dbsum_def)
  next
    case (Inr v)
    with lx show ?thesis by (simp add: dbsum_def fadd_overflow_commute)
  qed
qed

lemma db_level_commute: "db_level x y = db_level y x"
  by (simp add: db_level_def dbsum_commute)

lemma lin_small: "0 \<le> x \<Longrightarrow> x \<le> 100 \<Longrightarrow> lin (IntV x) = Inr (Fin (10 powr (of_int x / 20)))"
proof -
  assume "0 \<le> x" and "x \<le> 100"
  then have "x \<le> 6165" by simp
  then have "\<not> 6166 \<le> x" by simp
  then have "lin (IntV x) \<noteq> Inl OverflowError" by (simp only: lin_int_overflow not_False_eq_True)
  then show ?thesis by (simp split: if_splits)
qed

lemma dbsum_zero: "dbsum (IntV 0) (IntV 0) = Inr (Fin (20 * log 10 2))"
proof -
  have "lin (IntV 0) = Inr (Fin 1)" using lin_small[of 0] by simp
  moreover have "\<not> max_float < 2" by (simp add: max_float_def)
  ultimately show ?thesis by (simp add: dbsum_def)
qed

lemma db_level_zero: "db_level (IntV 0) (IntV 0) = Fin (20 * log 10 2)"
  by (simp add: db_level_def dbsum_zero)

lemma lin_7000: "lin (IntV 7000) = Inl OverflowError"
  by (simp only: lin_int_overflow)

section \<open>The loops of addition\<close>

lemma merge_noise_error: "fst (merge_noise ns es) = Some e \<Longrightarrow> e = IndexError \<or> e = OverflowError"
  by (induction ns es rule: merge_noise.induct)
     (auto split: sum.splits prod.splits dest: dbsum_error)

lemma merge_noise_longer: "length ns < length es \<Longrightarrow> fst (merge_noise ns es) \<noteq> None"
  by (induction ns es rule: merge_noise.induct) (auto split: sum.splits prod.splits)

lemma merge_noise_length: "length (snd (merge_noise ns es)) = length ns"
  by (induction ns es rule: merge_noise.induct) (auto split: sum.splits prod.splits)

lemma merge_noise_eq:
  "\<forall>p\<in>set ns. in_range (snd p) \<Longrightarrow> \<forall>p\<in>set es. in_range (snd p) \<Longrightarrow>
   merge_noise ns es =
     (if length ns < length es then Some IndexError else None,
      map combine_noise (zip ns es) @ drop (length es) ns)"
proof (induction ns es rule: merge_noise.induct)
  case (1 ns)
  then show ?case by simp
next
  case (2 e es)
  then show ?case by simp
next
  case (3 j v ns j' w es)
  from "3.prems" have s: "dbsum v w = Inr (db_level v w)" by (simp add: dbsum_in_range)
  from "3.prems" have "\<forall>p\<in>set ns. in_range (snd p)" and "\<forall>p\<in>set es. in_range (snd p)"
    by simp_all
  with "3.IH"[OF s] show ?case by (simp add: s combine_noise_def)
qed

lemma py_index_error: "py_index xs i = Inl e \<Longrightarrow> e = IndexError"
  by (auto simp: py_index_def split: if_splits)

lemma py_index_out_of_range:
  "i < - int (length xs) \<or> int (length xs) \<le> i \<Longrightarrow> py_index xs i = Inl IndexError"
  by (auto simp: py_index_def)

lemma find_echo_Some:
  "find_echo k es = Some i \<Longrightarrow> i < length es \<and> (fst (es ! i), fst (snd (es ! i))) = k"
proof (induction es arbitrary: i)
  case Nil
  then show ?case by simp
next
  case (Cons e es)
  obtain f h a where e: "e = (f, h, a)" by (cases e)
  show ?case
  proof (cases "(f, h) = k")
    case True
    then show ?thesis using Cons.prems e by auto
  next
    case False
    with Cons.prems e obtain i' where "find_echo k es = Some i'" and "i = Suc i'" by auto
    with Cons.IH show ?thesis by auto
  qed
qed

lemma merge_echo_error:
  "fst (merge_echo ns es e) = Some err \<Longrightarrow> err = IndexError \<or> err = OverflowError"
  by (auto simp: merge_echo_def Let_def split: prod.splits option.splits sum.splits if_splits
      dest: py_index_error dbsum_error)

lemma merge_echo_out_of_range:
  assumes "fst e < - int (length ns) \<or> int (length ns) \<le> fst e"
  shows "fst (merge_echo ns es e) \<noteq> None"
proof -
  obtain f h a where e: "e = (f, h, a)" by (cases e)
  have bad: "py_index ns f = Inl IndexError" using assms e by (simp add: py_index_out_of_range)
  show ?thesis
  proof (cases "find_echo (f, h) es")
    case None
    then show ?thesis using bad e by (simp add: merge_echo_def)
  next
    case (Some i1)
    from find_echo_Some[OF Some] have "fst (es ! i1) = f" by simp
    then show ?thesis using bad e Some
      by (auto simp: merge_echo_def Let_def split: prod.splits sum.splits)
  qed
qed

lemma merge_echoes_error:
  "fst (merge_echoes ns es bs) = Some err \<Longrightarrow> err = IndexError \<or> err = OverflowError"
proof (induction bs arbitrary: es)
  case Nil
  then show ?case by simp
next
  case (Cons b bs)
  show ?case
  proof (cases "fst (merge_echo ns es b)")
    case None
    then obtain es' where "merge_echo ns es b = (None, es')" by (cases "merge_echo ns es b") auto
    with Cons show ?thesis by simp
  next
    case (Some e)
    then obtain es' where m: "merge_echo ns es b = (Some e, es')" by (cases "merge_echo ns es b") auto
    with Cons.prems have "err = e" by simp
    with merge_echo_error[of ns es b e] m show ?thesis by simp
  qed
qed

lemma merge_echoes_out_of_range:
  "\<exists>e\<in>set bs. fst e < - int (length ns) \<or> int (length ns) \<le> fst e \<Longrightarrow>
   fst (merge_echoes ns es bs) \<noteq> None"
proof (induction bs arbitrary: es)
  case Nil
  then show ?case by simp
next
  case (Cons b bs)
  show ?case
  proof (cases "fst (merge_echo ns es b)")
    case (Some e)
    then obtain es' where m: "merge_echo ns es b = (Some e, es')" by (cases "merge_echo ns es b") auto
    then show ?thesis by simp
  next
    case None
    then obtain es' where m: "merge_echo ns es b = (None, es')" by (cases "merge_echo ns es b") auto
    have "\<not> (fst b < - int (length ns) \<or> int (length ns) \<le> fst b)"
      using merge_echo_out_of_range[of b ns es] None by auto
    with Cons.prems have "\<exists>e\<in>set bs. fst e < - int (length ns) \<or> int (length ns) \<le> fst e" by auto
    from Cons.IH[OF this] m show ?thesis by simp
  qed
qed

text \<open>With every amplitude in range no power raises, and the amplitudes stay in range.\<close>

lemma merge_echo_in_range:
  assumes "\<forall>x\<in>set es. in_range (echo_amp x)" and "in_range (echo_amp e)"
  shows "(\<forall>x\<in>set (snd (merge_echo ns es e)). in_range (echo_amp x))
       \<and> (\<forall>err. fst (merge_echo ns es e) = Some err \<longrightarrow> err = IndexError)"
proof -
  obtain f h a where e: "e = (f, h, a)" by (cases e)
  from assms(2) e have ra: "in_range a" by (simp add: echo_amp_def)
  show ?thesis
  proof (cases "find_echo (f, h) es")
    case None
    show ?thesis
    proof (cases "py_index ns f")
      case (Inl err)
      then have "err = IndexError" by (rule py_index_error)
      with Inl None e assms(1) show ?thesis by (simp add: merge_echo_def)
    next
      case (Inr nv)
      with None e assms show ?thesis by (simp add: merge_echo_def)
    qed
  next
    case (Some i1)
    from find_echo_Some[OF Some] have i1: "i1 < length es" by simp
    obtain f1 h1 a1 where e1: "es ! i1 = (f1, h1, a1)" by (cases "es ! i1")
    from i1 have "es ! i1 \<in> set es" by simp
    with assms(1) e1 have ra1: "in_range a1" by (auto simp: echo_amp_def)
    have s: "dbsum a1 a = Inr (db_level a1 a)" using ra1 ra by (rule dbsum_in_range)
    show ?thesis
    proof (cases "py_index ns f1")
      case (Inl err)
      then have "err = IndexError" by (rule py_index_error)
      with Inl Some e e1 s assms(1) show ?thesis by (simp add: merge_echo_def)
    next
      case (Inr nv)
      have u: "\<forall>x\<in>set (es[i1 := (f1, h1, FloatV (db_level a1 a))]). in_range (echo_amp x)"
      proof
        fix x assume "x \<in> set (es[i1 := (f1, h1, FloatV (db_level a1 a))])"
        then have "x \<in> insert (f1, h1, FloatV (db_level a1 a)) (set es)"
          using set_update_subset_insert by fastforce
        with assms(1) show "in_range (echo_amp x)"
          by (auto simp: echo_amp_def in_range_float)
      qed
      have r: "\<forall>x\<in>set (take i1 es @ drop (Suc i1) es). in_range (echo_amp x)"
      proof
        fix x assume "x \<in> set (take i1 es @ drop (Suc i1) es)"
        then have "x \<in> set es" by (auto dest: in_set_takeD in_set_dropD)
        with assms(1) show "in_range (echo_amp x)" by simp
      qed
      from u r Inr Some e e1 s show ?thesis by (simp add: merge_echo_def)
    qed
  qed
qed

lemma merge_echoes_in_range:
  "\<forall>x\<in>set es. in_range (echo_amp x) \<Longrightarrow> \<forall>x\<in>set bs. in_range (echo_amp x) \<Longrightarrow>
   fst (merge_echoes ns es bs) = Some err \<Longrightarrow> err = IndexError"
proof (induction bs arbitrary: es)
  case Nil
  then show ?case by simp
next
  case (Cons b bs)
  from Cons.prems have rb: "in_range (echo_amp b)" and rbs: "\<forall>x\<in>set bs. in_range (echo_amp x)"
    by simp_all
  note step = merge_echo_in_range[OF Cons.prems(1) rb, of ns]
  show ?case
  proof (cases "fst (merge_echo ns es b)")
    case None
    then obtain es' where m: "merge_echo ns es b = (None, es')" by (cases "merge_echo ns es b") auto
    with step have "\<forall>x\<in>set es'. in_range (echo_amp x)" by simp
    from Cons.IH[OF this rbs] Cons.prems(3) m show ?thesis by simp
  next
    case (Some e)
    then obtain es' where m: "merge_echo ns es b = (Some e, es')" by (cases "merge_echo ns es b") auto
    with Cons.prems(3) have "err = e" by simp
    with step m show ?thesis by simp
  qed
qed

lemma log10_2_pos: "0 < log 10 (2::real)"
  by simp

lemma log10_2_less: "log 10 (2::real) < 1"
proof -
  have "log 10 (2::real) < log 10 10" by (subst log_less_cancel_iff) simp_all
  then show ?thesis by simp
qed

lemma echo_map_Cons:
  "echo_map (e # es) k = (if k = echo_key e then Some (echo_amp e) else echo_map es k)"
  by (simp add: echo_map_def)

lemma echo_map_None: "echo_map es k = None \<longleftrightarrow> k \<notin> echo_key ` set es"
  by (simp add: echo_map_def map_of_eq_None_iff image_image)

lemma echo_map_Some:
  "distinct (map echo_key es) \<Longrightarrow> echo_map es (f, h) = Some a \<longleftrightarrow> (f, h, a) \<in> set es"
proof -
  assume d: "distinct (map echo_key es)"
  have "distinct (map fst (map (\<lambda>e. (echo_key e, echo_amp e)) es))"
    using d by (simp add: comp_def)
  then have "echo_map es (f, h) = Some a \<longleftrightarrow> ((f, h), a) \<in> set (map (\<lambda>e. (echo_key e, echo_amp e)) es)"
    unfolding echo_map_def by (rule map_of_eq_Some_iff)
  also have "\<dots> \<longleftrightarrow> (f, h, a) \<in> set es"
  proof
    assume "((f, h), a) \<in> set (map (\<lambda>e. (echo_key e, echo_amp e)) es)"
    then obtain e where m: "e \<in> set es" and k: "echo_key e = (f, h)" and a: "echo_amp e = a" by auto
    from k a have "e = (f, h, a)" by (auto simp: echo_key_def echo_amp_def prod_eq_iff)
    with m show "(f, h, a) \<in> set es" by simp
  next
    assume "(f, h, a) \<in> set es"
    then have "(echo_key (f, h, a), echo_amp (f, h, a)) \<in> (\<lambda>e. (echo_key e, echo_amp e)) ` set es"
      by (rule imageI)
    then show "((f, h), a) \<in> set (map (\<lambda>e. (echo_key e, echo_amp e)) es)"
      by (simp add: echo_key_def echo_amp_def)
  qed
  finally show ?thesis .
qed

lemma set_by_echo_map:
  "distinct (map echo_key es) \<Longrightarrow> set es = {(f, h, a). echo_map es (f, h) = Some a}"
  by (auto simp: echo_map_Some)

lemma echo_map_append:
  "echo_key e \<notin> echo_key ` set es \<Longrightarrow>
   echo_map (es @ [e]) k = (if k = echo_key e then Some (echo_amp e) else echo_map es k)"
  by (induction es) (auto simp: echo_map_Cons echo_map_def)

lemma echo_map_update:
  "distinct (map echo_key es) \<Longrightarrow> i < length es \<Longrightarrow> echo_key (es ! i) = echo_key e \<Longrightarrow>
   echo_map (es[i := e]) k = (if k = echo_key e then Some (echo_amp e) else echo_map es k)"
proof (induction es arbitrary: i k)
  case Nil
  then show ?case by simp
next
  case (Cons x xs)
  show ?case
  proof (cases i)
    case 0
    then show ?thesis using Cons.prems by (simp add: echo_map_Cons)
  next
    case (Suc j)
    with Cons.prems have j: "j < length xs" and k: "echo_key (xs ! j) = echo_key e"
      and d: "distinct (map echo_key xs)" and nx: "echo_key x \<notin> echo_key ` set xs" by auto
    from j k nx have ne: "echo_key x \<noteq> echo_key e" by (metis imageI nth_mem)
    from Cons.IH[OF d j k] show ?thesis using Suc ne by (simp add: echo_map_Cons)
  qed
qed

lemma echo_map_remove:
  "distinct (map echo_key es) \<Longrightarrow> i < length es \<Longrightarrow>
   echo_map (take i es @ drop (Suc i) es) k = (if k = echo_key (es ! i) then None else echo_map es k)"
proof (induction es arbitrary: i k)
  case Nil
  then show ?case by simp
next
  case (Cons x xs)
  from Cons.prems have d: "distinct (map echo_key xs)" and nx: "echo_key x \<notin> echo_key ` set xs"
    by auto
  show ?case
  proof (cases i)
    case 0
    from nx have "echo_map xs (echo_key x) = None" by (simp add: echo_map_None)
    then show ?thesis using 0 by (simp add: echo_map_Cons)
  next
    case (Suc j)
    with Cons.prems have j: "j < length xs" by simp
    from j nx have ne: "echo_key x \<noteq> echo_key (xs ! j)" by (metis imageI nth_mem)
    from Cons.IH[OF d j] show ?thesis using Suc ne by (simp add: echo_map_Cons)
  qed
qed

lemma distinct_keys_update:
  "distinct (map echo_key es) \<Longrightarrow> i < length es \<Longrightarrow> echo_key (es ! i) = echo_key e \<Longrightarrow>
   distinct (map echo_key (es[i := e]))"
  by (simp add: map_update) (metis list_update_id nth_map)

lemma distinct_keys_remove:
  "distinct (map echo_key es) \<Longrightarrow> distinct (map echo_key (take i es @ drop (Suc i) es))"
proof -
  assume d: "distinct (map echo_key es)"
  have "map echo_key (take i es @ drop (Suc i) es)
        = take i (map echo_key es) @ drop (Suc i) (map echo_key es)"
    by (simp add: take_map drop_map)
  moreover have "distinct (take i (map echo_key es) @ drop (Suc i) (map echo_key es))"
    using d set_take_disj_set_drop_if_distinct[OF d, of i "Suc i"] by simp
  ultimately show ?thesis by simp
qed

lemma find_echo_None: "find_echo k es = None \<longleftrightarrow> k \<notin> echo_key ` set es"
proof (induction es)
  case Nil
  then show ?case by simp
next
  case (Cons e es)
  obtain f h a where e: "e = (f, h, a)" by (cases e)
  show ?case using Cons by (simp add: e echo_key_def eq_commute)
qed

lemma find_echo_amp:
  "find_echo k es = Some i \<Longrightarrow> echo_map es k = Some (echo_amp (es ! i))"
proof (induction es arbitrary: i)
  case Nil
  then show ?case by simp
next
  case (Cons e es)
  obtain f h a where e: "e = (f, h, a)" by (cases e)
  show ?case
  proof (cases "(f, h) = k")
    case True
    then show ?thesis using Cons.prems e by (auto simp: echo_map_Cons echo_key_def)
  next
    case False
    with Cons.prems e obtain i' where "find_echo k es = Some i'" and "i = Suc i'" by auto
    with Cons.IH False show ?thesis by (auto simp: echo_map_Cons e echo_key_def)
  qed
qed

lemma py_index_ok:
  "index_ok (length ns) f \<Longrightarrow> py_index ns f = Inr (ns ! nat (if f < 0 then int (length ns) + f else f))"
  by (auto simp: index_ok_def py_index_def)

lemma echo_key_triple: "echo_key (f, h, a) = (f, h)"
  by (simp add: echo_key_def)

lemma echo_amp_triple: "echo_amp (f, h, a) = a"
  by (simp add: echo_amp_def)

lemma merge_echo_spec_triple:
  assumes d: "distinct (map echo_key es)" and ok: "index_ok (length ns) f"
    and res: "\<forall>x\<in>set es. in_range (echo_amp x)" and ra: "in_range a"
  shows "\<exists>es'. merge_echo ns es (f, h, a) = (None, es') \<and> distinct (map echo_key es')
     \<and> (\<forall>x\<in>set es'. in_range (echo_amp x))
     \<and> (\<forall>k. echo_map es' k =
            (if k = (f, h) then merged_amp ns k (echo_map es k) (Some a)
             else echo_map es k))"
proof -
  from ok have pi: "py_index ns f = Inr (ns ! nat (if f < 0 then int (length ns) + f else f))"
    by (simp add: py_index_ok)
  have nl: "to_float (snd (ns ! nat (if f < 0 then int (length ns) + f else f))) = noise_level ns f"
    by (simp add: noise_level_def)
  have "in_range (echo_amp (f, h, a))" using ra by (simp add: echo_amp_def)
  from merge_echo_in_range[OF res this, of ns]
  have keep: "\<forall>x\<in>set (snd (merge_echo ns es (f, h, a))). in_range (echo_amp x)" by simp
  show ?thesis
  proof (cases "find_echo (f, h) es")
    case None
    then have nk: "echo_key (f, h, a) \<notin> echo_key ` set es"
      by (simp add: find_echo_None echo_key_triple)
    then have mn: "echo_map es (f, h) = None" by (simp add: echo_map_None echo_key_triple)
    show ?thesis
    proof (cases "fgt (to_float a) (noise_level ns f)")
      case True
      then have m: "merge_echo ns es (f, h, a) = (None, es @ [(f, h, a)])"
        using None pi nl by (simp add: merge_echo_def)
      have "distinct (map echo_key (es @ [(f, h, a)]))" using d nk by simp
      moreover have "\<forall>k. echo_map (es @ [(f, h, a)]) k =
            (if k = (f, h) then merged_amp ns k (echo_map es k) (Some a)
             else echo_map es k)"
        using True mn
        by (simp add: echo_map_append[OF nk] echo_key_triple echo_amp_triple merged_amp_def gate_def)
      moreover have "\<forall>x\<in>set (es @ [(f, h, a)]). in_range (echo_amp x)" using keep m by simp
      ultimately show ?thesis using m by blast
    next
      case False
      then have m: "merge_echo ns es (f, h, a) = (None, es)"
        using None pi nl by (simp add: merge_echo_def)
      have "\<forall>k. echo_map es k =
            (if k = (f, h) then merged_amp ns k (echo_map es k) (Some a)
             else echo_map es k)"
        using False mn by (simp add: merged_amp_def gate_def)
      then show ?thesis using m d res by blast
    qed
  next
    case (Some i1)
    from find_echo_Some[OF Some] have i1: "i1 < length es" and k1: "fst (es ! i1) = f"
      and h1: "fst (snd (es ! i1)) = h" by auto
    obtain a1 where e1: "es ! i1 = (f, h, a1)" using k1 h1 by (cases "es ! i1") auto
    from find_echo_amp[OF Some] e1 have ma: "echo_map es (f, h) = Some a1"
      by (simp add: echo_amp_triple)
    have key1: "echo_key (es ! i1) = (f, h)" by (simp add: e1 echo_key_triple)
    from i1 have "es ! i1 \<in> set es" by simp
    with res e1 have "in_range a1" by (auto simp: echo_amp_def)
    then have s: "dbsum a1 a = Inr (db_level a1 a)" using ra by (rule dbsum_in_range)
    let ?v = "FloatV (db_level a1 a)"
    show ?thesis
    proof (cases "fgt (db_level a1 a) (noise_level ns f)")
      case True
      then have m: "merge_echo ns es (f, h, a) = (None, es[i1 := (f, h, ?v)])"
        using Some pi nl e1 s by (simp add: merge_echo_def)
      have kk: "echo_key (es ! i1) = echo_key (f, h, ?v)"
        by (simp add: key1 echo_key_triple)
      have "distinct (map echo_key (es[i1 := (f, h, ?v)]))"
        by (rule distinct_keys_update[OF d i1 kk])
      moreover have "\<forall>k. echo_map (es[i1 := (f, h, ?v)]) k =
            (if k = (f, h) then merged_amp ns k (echo_map es k) (Some a)
             else echo_map es k)"
        using True ma
        by (simp add: echo_map_update[OF d i1 kk] echo_key_triple echo_amp_triple
            merged_amp_def gate_def)
      moreover have "\<forall>x\<in>set (es[i1 := (f, h, ?v)]). in_range (echo_amp x)"
        using keep m by simp
      ultimately show ?thesis using m by blast
    next
      case False
      then have m: "merge_echo ns es (f, h, a) = (None, take i1 es @ drop (Suc i1) es)"
        using Some pi nl e1 s by (simp add: merge_echo_def)
      have "distinct (map echo_key (take i1 es @ drop (Suc i1) es))"
        by (rule distinct_keys_remove[OF d])
      moreover have "\<forall>k. echo_map (take i1 es @ drop (Suc i1) es) k =
            (if k = (f, h) then merged_amp ns k (echo_map es k) (Some a)
             else echo_map es k)"
        using False ma
        by (simp add: echo_map_remove[OF d i1] key1 merged_amp_def gate_def)
      moreover have "\<forall>x\<in>set (take i1 es @ drop (Suc i1) es). in_range (echo_amp x)"
        using keep m by simp
      ultimately show ?thesis using m by blast
    qed
  qed
qed

lemma merge_echo_spec:
  assumes d: "distinct (map echo_key es)" and ok: "index_ok (length ns) (fst e)"
    and res: "\<forall>x\<in>set es. in_range (echo_amp x)" and ra: "in_range (echo_amp e)"
  shows "\<exists>es'. merge_echo ns es e = (None, es') \<and> distinct (map echo_key es')
     \<and> (\<forall>x\<in>set es'. in_range (echo_amp x))
     \<and> (\<forall>k. echo_map es' k =
            (if k = echo_key e then merged_amp ns k (echo_map es k) (Some (echo_amp e))
             else echo_map es k))"
proof -
  obtain f h a where e: "e = (f, h, a)" by (cases e)
  from ok e have o: "index_ok (length ns) f" by simp
  from ra e have r: "in_range a" by (simp add: echo_amp_def)
  from merge_echo_spec_triple[OF d o res r, of h] show ?thesis
    unfolding e echo_key_triple echo_amp_triple .
qed

lemma merge_echoes_spec:
  "distinct (map echo_key es) \<Longrightarrow> distinct (map echo_key bs) \<Longrightarrow>
   (\<forall>e\<in>set bs. index_ok (length ns) (fst e)) \<Longrightarrow>
   (\<forall>x\<in>set es. in_range (echo_amp x)) \<Longrightarrow> (\<forall>x\<in>set bs. in_range (echo_amp x)) \<Longrightarrow>
   \<exists>rs. merge_echoes ns es bs = (None, rs) \<and> distinct (map echo_key rs)
     \<and> (\<forall>k. echo_map rs k = merged_amp ns k (echo_map es k) (echo_map bs k))"
proof (induction bs arbitrary: es)
  case Nil
  then show ?case by (simp add: merged_amp_def echo_map_def)
next
  case (Cons b bs)
  from Cons.prems have ok: "index_ok (length ns) (fst b)" and rb: "in_range (echo_amp b)"
    by simp_all
  from merge_echo_spec[OF Cons.prems(1) ok Cons.prems(4) rb] obtain es' where
    m: "merge_echo ns es b = (None, es')" and d': "distinct (map echo_key es')"
    and r': "\<forall>x\<in>set es'. in_range (echo_amp x)"
    and v: "\<And>k. echo_map es' k =
            (if k = echo_key b then merged_amp ns k (echo_map es k) (Some (echo_amp b))
             else echo_map es k)" by blast
  from Cons.prems have db: "distinct (map echo_key bs)" and nb: "echo_key b \<notin> echo_key ` set bs"
    and oks: "\<forall>e\<in>set bs. index_ok (length ns) (fst e)"
    and rbs: "\<forall>x\<in>set bs. in_range (echo_amp x)" by auto
  from Cons.IH[OF d' db oks r' rbs] obtain rs where
    r: "merge_echoes ns es' bs = (None, rs)" and dr: "distinct (map echo_key rs)"
    and w: "\<And>k. echo_map rs k = merged_amp ns k (echo_map es' k) (echo_map bs k)" by blast
  from nb have bn: "echo_map bs (echo_key b) = None" by (simp add: echo_map_None)
  have "echo_map rs k = merged_amp ns k (echo_map es k) (echo_map (b # bs) k)" for k
  proof (cases "k = echo_key b")
    case True
    then show ?thesis using w[of k] v[of k] bn by (simp add: echo_map_Cons merged_amp_def)
  next
    case False
    then show ?thesis using w[of k] v[of k] by (simp add: echo_map_Cons)
  qed
  then show ?case using m r dr by simp
qed

lemma merged_noise_commute:
  assumes "map fst (noise a) = map fst (noise b)"
  shows "merged_noise a b = merged_noise b a"
proof (rule nth_equalityI)
  from assms have "length (map fst (noise a)) = length (map fst (noise b))" by simp
  then have len: "length (noise a) = length (noise b)" by simp
  then show "length (merged_noise a b) = length (merged_noise b a)" by (simp add: merged_noise_def)
  fix i assume "i < length (merged_noise a b)"
  then have i: "i < length (noise a)" "i < length (noise b)" using len by (simp_all add: merged_noise_def)
  have "map fst (noise a) ! i = map fst (noise b) ! i" using assms by simp
  then have "fst (noise a ! i) = fst (noise b ! i)" using i by simp
  then show "merged_noise a b ! i = merged_noise b a ! i"
    using i by (simp add: merged_noise_def combine_noise_def db_level_commute)
qed

lemma merge_noise_aligned:
  "length (noise a) = length (noise b) \<Longrightarrow>
   \<forall>p\<in>set (noise a). in_range (snd p) \<Longrightarrow> \<forall>p\<in>set (noise b). in_range (snd p) \<Longrightarrow>
   merge_noise (noise a) (noise b) = (None, merged_noise a b)"
  by (simp add: merge_noise_eq merged_noise_def)

text \<open>
  The echo sets of the two orders of addition, from the maps of the two results: the first
  has, beyond the second, the one-sided echoes of the left operand that are not above the noise
  level.
\<close>

lemma merged_difference:
  assumes da: "distinct (map echo_key as)" and db: "distinct (map echo_key bs)"
    and d1: "distinct (map echo_key r1)" and d2: "distinct (map echo_key r2)"
    and v1: "\<And>k. echo_map r1 k = merged_amp ns k (echo_map as k) (echo_map bs k)"
    and v2: "\<And>k. echo_map r2 k = merged_amp ns k (echo_map bs k) (echo_map as k)"
  shows "set r1 - set r2 =
     {e \<in> set as. echo_key e \<notin> echo_key ` set bs
        \<and> \<not> fgt (to_float (echo_amp e)) (noise_level ns (fst e))}"
proof -
  have "(f, h, v) \<in> set r1 - set r2 \<longleftrightarrow>
        (f, h, v) \<in> set as \<and> echo_key (f, h, v) \<notin> echo_key ` set bs
        \<and> \<not> fgt (to_float (echo_amp (f, h, v))) (noise_level ns (fst (f, h, v)))" for f h v
  proof -
    have l: "(f, h, v) \<in> set r1 - set r2 \<longleftrightarrow>
          merged_amp ns (f, h) (echo_map as (f, h)) (echo_map bs (f, h)) = Some v
          \<and> merged_amp ns (f, h) (echo_map bs (f, h)) (echo_map as (f, h)) \<noteq> Some v"
      using echo_map_Some[OF d1, of f h v] echo_map_Some[OF d2, of f h v]
      by (simp add: v1 v2)
    have r: "(f, h, v) \<in> set as \<and> echo_key (f, h, v) \<notin> echo_key ` set bs
        \<and> \<not> fgt (to_float (echo_amp (f, h, v))) (noise_level ns (fst (f, h, v)))
        \<longleftrightarrow> echo_map as (f, h) = Some v \<and> echo_map bs (f, h) = None
            \<and> \<not> fgt (to_float v) (noise_level ns f)"
      using echo_map_Some[OF da, of f h v]
      by (simp add: echo_map_None echo_key_triple echo_amp_triple)
    show ?thesis unfolding l r
      by (cases "echo_map as (f, h)"; cases "echo_map bs (f, h)")
         (auto simp: merged_amp_def gate_def db_level_commute split: if_splits)
  qed
  note pointwise = this
  show ?thesis
  proof (rule set_eqI)
    fix e :: "int \<times> int \<times> pynum"
    obtain f h v where e: "e = (f, h, v)" by (cases e)
    show "e \<in> set r1 - set r2 \<longleftrightarrow>
          e \<in> {e \<in> set as. echo_key e \<notin> echo_key ` set bs
                \<and> \<not> fgt (to_float (echo_amp e)) (noise_level ns (fst e))}"
      unfolding e using pointwise[of f h v] by simp
  qed
qed

lemma fgt_above_log2: "20 \<le> x \<Longrightarrow> fgt (Fin x) (Fin (20 * log 10 2))"
proof -
  assume "20 \<le> x"
  moreover have "20 * log 10 (2::real) < 20" using log10_2_less by linarith
  ultimately have "20 * log 10 2 < x" by linarith
  then show ?thesis by (simp only: fgt_def flt.simps)
qed

lemma not_fgt_zero_log2: "\<not> fgt (Fin 0) (Fin (20 * log 10 2))"
proof -
  have "\<not> 20 * log 10 (2::real) < 0" using log10_2_pos by linarith
  then show ?thesis by (simp only: fgt_def flt.simps not_False_eq_True)
qed

section \<open>In-place addition on misaligned operands\<close>

text \<open>
  C4, as the code has it, for two distinct objects \<open>a\<close> and \<open>b\<close>. There is no MergeError. When
  the right operand's noise vector is longer than the left one's, \<^verbatim>\<open>a += b\<close> raises IndexError or
  OverflowError and leaves the echoes of \<open>a\<close> untouched; when no noise value is an int above 6165
  it is IndexError, raised after every noise entry of \<open>a\<close> has been combined with its
  counterpart. When the right noise vector is not longer and some echo of the right operand has
  a frequency index outside \<open>[-n, n)\<close>, \<open>n\<close> the length of the left noise vector, \<^verbatim>\<open>a += b\<close> raises
  IndexError or OverflowError; it is IndexError when no noise value and no echo amplitude of
  either operand is an int above 6165.
\<close>

theorem iadd_misaligned_raises:
  "(length (noise a) < length (noise b) \<longrightarrow>
      (fst (iadd a b) = Some IndexError \<or> fst (iadd a b) = Some OverflowError)
      \<and> echoes (snd (iadd a b)) = echoes a
      \<and> (list_all (\<lambda>p. in_range (snd p)) (noise a) \<and> list_all (\<lambda>p. in_range (snd p)) (noise b)
          \<longrightarrow> fst (iadd a b) = Some IndexError
              \<and> noise (snd (iadd a b)) = map combine_noise (zip (noise a) (noise b))))
   \<and> (length (noise b) \<le> length (noise a)
       \<and> (\<exists>e\<in>set (echoes b). fst e < - int (length (noise a)) \<or> int (length (noise a)) \<le> fst e)
      \<longrightarrow> (fst (iadd a b) = Some IndexError \<or> fst (iadd a b) = Some OverflowError)
          \<and> (values_in_range a \<and> values_in_range b \<longrightarrow> fst (iadd a b) = Some IndexError))"
proof -
  obtain en ns where mn: "merge_noise (noise a) (noise b) = (en, ns)"
    by (cases "merge_noise (noise a) (noise b)")
  have kind_n: "e = IndexError \<or> e = OverflowError" if "en = Some e" for e
    using merge_noise_error[of "noise a" "noise b" e] mn that by simp
  have len: "length ns = length (noise a)"
    using merge_noise_length[of "noise a" "noise b"] mn by simp
  have first_any: "(fst (iadd a b) = Some IndexError \<or> fst (iadd a b) = Some OverflowError)
      \<and> echoes (snd (iadd a b)) = echoes a" if l: "length (noise a) < length (noise b)"
  proof -
    from merge_noise_longer[OF l] mn obtain e where e: "en = Some e" by auto
    from kind_n[OF e] show ?thesis using mn e by (auto simp: iadd_def)
  qed
  have first_exact: "fst (iadd a b) = Some IndexError
      \<and> noise (snd (iadd a b)) = map combine_noise (zip (noise a) (noise b))"
    if l: "length (noise a) < length (noise b)"
      and r: "list_all (\<lambda>p. in_range (snd p)) (noise a) \<and> list_all (\<lambda>p. in_range (snd p)) (noise b)"
  proof -
    from r have "\<forall>p\<in>set (noise a). in_range (snd p)" and "\<forall>p\<in>set (noise b). in_range (snd p)"
      by (simp_all add: list_all_iff)
    from merge_noise_eq[OF this] l show ?thesis by (simp add: iadd_def)
  qed
  have second_any: "fst (iadd a b) = Some IndexError \<or> fst (iadd a b) = Some OverflowError"
    if h: "\<exists>e\<in>set (echoes b). fst e < - int (length (noise a)) \<or> int (length (noise a)) \<le> fst e"
  proof (cases en)
    case (Some e)
    from kind_n[OF Some] show ?thesis using mn Some by (auto simp: iadd_def)
  next
    case None
    have "\<exists>e\<in>set (echoes b). fst e < - int (length ns) \<or> int (length ns) \<le> fst e"
      unfolding len using h .
    from merge_echoes_out_of_range[OF this, of "echoes a"] obtain e where
      e: "fst (merge_echoes ns (echoes a) (echoes b)) = Some e" by auto
    from merge_echoes_error[OF e] show ?thesis
      using mn None e by (auto simp: iadd_def split: prod.splits)
  qed
  have second_exact: "fst (iadd a b) = Some IndexError"
    if h: "\<exists>e\<in>set (echoes b). fst e < - int (length (noise a)) \<or> int (length (noise a)) \<le> fst e"
      and l: "length (noise b) \<le> length (noise a)"
      and r: "values_in_range a \<and> values_in_range b"
  proof -
    from r have na: "\<forall>p\<in>set (noise a). in_range (snd p)" and nb: "\<forall>p\<in>set (noise b). in_range (snd p)"
      and ea: "\<forall>x\<in>set (echoes a). in_range (echo_amp x)"
      and eb: "\<forall>x\<in>set (echoes b). in_range (echo_amp x)"
      by (simp_all add: values_in_range_def list_all_iff)
    from merge_noise_eq[OF na nb] l mn have en: "en = None" by simp
    have "\<exists>e\<in>set (echoes b). fst e < - int (length ns) \<or> int (length ns) \<le> fst e"
      unfolding len using h .
    from merge_echoes_out_of_range[OF this, of "echoes a"] obtain e where
      e: "fst (merge_echoes ns (echoes a) (echoes b)) = Some e" by auto
    from merge_echoes_in_range[OF ea eb e] show ?thesis
      using mn en e by (auto simp: iadd_def split: prod.splits)
  qed
  show ?thesis using first_any first_exact second_any second_exact by blast
qed

text \<open>
  One noise entry against two, with the noise values 0 and with the noise value 7000 on the
  left, and an echo with frequency index 3 against one noise entry.
\<close>

theorem iadd_misaligned_raises_witness:
  "length (noise one_freq_example) < length (noise two_freq_example)
   \<and> list_all (\<lambda>p. in_range (snd p)) (noise one_freq_example)
   \<and> list_all (\<lambda>p. in_range (snd p)) (noise two_freq_example)
   \<and> fst (iadd one_freq_example two_freq_example) = Some IndexError
   \<and> noise (snd (iadd one_freq_example two_freq_example)) = [(0, FloatV (Fin (20 * log 10 2)))]
   \<and> echoes (snd (iadd one_freq_example two_freq_example)) = [(0, 20, IntV 30)]
   \<and> length (noise loud_noise_example) < length (noise two_freq_example)
   \<and> fst (iadd loud_noise_example two_freq_example) = Some OverflowError
   \<and> length (noise off_range_example) \<le> length (noise loaded_example)
   \<and> (3, 10, IntV 42) \<in> set (echoes off_range_example)
   \<and> int (length (noise loaded_example)) \<le> fst (3 :: int, 10 :: int, IntV 42)
   \<and> values_in_range loaded_example \<and> values_in_range off_range_example
   \<and> fst (iadd loaded_example off_range_example) = Some IndexError"
proof -
  have l: "length (noise one_freq_example) < length (noise two_freq_example)"
    by (simp add: one_freq_example_def two_freq_example_def)
  have r1: "list_all (\<lambda>p. in_range (snd p)) (noise one_freq_example)"
    by (simp add: one_freq_example_def in_range_def)
  have r2: "list_all (\<lambda>p. in_range (snd p)) (noise two_freq_example)"
    by (simp add: two_freq_example_def in_range_def)
  have n: "map combine_noise (zip (noise one_freq_example) (noise two_freq_example))
             = [(0, FloatV (Fin (20 * log 10 2)))]"
    by (simp add: one_freq_example_def two_freq_example_def combine_noise_def db_level_zero)
  have e: "echoes one_freq_example = [(0, 20, IntV 30)]"
    by (simp add: one_freq_example_def)
  have l3: "length (noise loud_noise_example) < length (noise two_freq_example)"
    by (simp add: loud_noise_example_def two_freq_example_def)
  have "dbsum (IntV 7000) (IntV 0) = Inl OverflowError"
    by (simp only: dbsum_def lin_7000 sum.case)
  then have o: "fst (iadd loud_noise_example two_freq_example) = Some OverflowError"
    by (simp add: iadd_def loud_noise_example_def two_freq_example_def)
  have l2: "length (noise off_range_example) \<le> length (noise loaded_example)"
    by (simp add: off_range_example_def)
  have m: "(3, 10, IntV 42) \<in> set (echoes off_range_example)"
    by (simp add: off_range_example_def)
  have r: "int (length (noise loaded_example)) \<le> fst (3 :: int, 10 :: int, IntV 42)"
    by (simp add: loaded_example_def)
  have v1: "values_in_range loaded_example"
    by (simp add: values_in_range_def loaded_example_def in_range_def echo_amp_def)
  have v2: "values_in_range off_range_example"
    by (simp add: values_in_range_def off_range_example_def loaded_example_def in_range_def
        echo_amp_def)
  from m r have ex: "\<exists>e\<in>set (echoes off_range_example).
      fst e < - int (length (noise loaded_example)) \<or> int (length (noise loaded_example)) \<le> fst e"
    by blast
  show ?thesis
    using iadd_misaligned_raises[of one_freq_example two_freq_example]
          iadd_misaligned_raises[of loaded_example off_range_example]
          l r1 r2 n e l3 o l2 m r v1 v2 ex
    by simp
qed

text \<open>
  C4 as stated fails: with two noise entries on the left and one on the right, \<^verbatim>\<open>a += b\<close> raises
  nothing and returns a record, in which only the first noise entry was combined.
\<close>

theorem iadd_shorter_noise_counterexample:
  "length (noise two_freq_example) = 2 \<and> length (noise one_freq_example) = 1
   \<and> iadd two_freq_example one_freq_example =
       (None, two_freq_example\<lparr>noise := [(0, FloatV (Fin (20 * log 10 2))), (1, IntV 0)],
                echoes := [(0, 10, IntV 42), (0, 20, IntV 30)]\<rparr>)"
proof -
  have n: "merge_noise (noise two_freq_example) (noise one_freq_example)
         = (None, [(0, FloatV (Fin (20 * log 10 2))), (1, IntV 0)])"
    by (simp add: two_freq_example_def one_freq_example_def dbsum_zero)
  have g: "fgt (Fin 30) (Fin (20 * log 10 2))" by (rule fgt_above_log2) simp
  have e: "merge_echoes [(0, FloatV (Fin (20 * log 10 2))), (1, IntV 0)] (echoes two_freq_example)
             (echoes one_freq_example) = (None, [(0, 10, IntV 42), (0, 20, IntV 30)])"
    using g by (simp add: two_freq_example_def one_freq_example_def loaded_example_def
        merge_echo_def py_index_def)
  have l: "length (noise two_freq_example) = 2 \<and> length (noise one_freq_example) = 1"
    by (simp add: two_freq_example_def one_freq_example_def)
  have "iadd two_freq_example one_freq_example =
       (None, two_freq_example\<lparr>noise := [(0, FloatV (Fin (20 * log 10 2))), (1, IntV 0)],
                echoes := [(0, 10, IntV 42), (0, 20, IntV 30)]\<rparr>)"
    by (simp add: iadd_def n e)
  with l show ?thesis by simp
qed

section \<open>Addition in both orders\<close>

text \<open>
  C3, as the code has it. Let \<open>a\<close> and \<open>b\<close> have noise vectors with the same frequency labels
  (hence the same length), at most one echo per \<^verbatim>\<open>[ifn, it]\<close> each, echo frequency indices that
  index the noise vector, and no noise value or echo amplitude that is an int above 6165 (where
  the power raises OverflowError). Then \<open>a + b\<close> and \<open>b + a\<close> both succeed, with the same noise
  vector. Their echo sets differ exactly by the echoes present in only one operand that are not
  above the combined noise level at their frequency: the sum keeps such an echo of its left
  operand and drops such an echo of its right operand. So the two echo sets are equal if and
  only if there is no such echo.
\<close>

theorem add_commutes_up_to_weak_one_sided_echoes:
  assumes aligned: "map fst (noise a) = map fst (noise b)"
    and da: "distinct (map echo_key (echoes a))"
    and db: "distinct (map echo_key (echoes b))"
    and ok: "\<forall>e\<in>set (echoes a) \<union> set (echoes b). index_ok (length (noise a)) (fst e)"
    and ra: "values_in_range a"
    and rb: "values_in_range b"
  shows "\<exists>c d. add a b = Inr c \<and> add b a = Inr d \<and> noise c = noise d
           \<and> noise c = merged_noise a b
           \<and> set (echoes c) - set (echoes d) = weak_one_sided a b
           \<and> set (echoes d) - set (echoes c) = weak_one_sided b a
           \<and> (set (echoes c) = set (echoes d)
                \<longleftrightarrow> weak_one_sided a b = {} \<and> weak_one_sided b a = {})"
proof -
  let ?N = "merged_noise a b"
  from aligned have "length (map fst (noise a)) = length (map fst (noise b))" by simp
  then have len: "length (noise a) = length (noise b)" by simp
  from ra rb have na: "\<forall>p\<in>set (noise a). in_range (snd p)"
    and nb: "\<forall>p\<in>set (noise b). in_range (snd p)"
    and ea: "\<forall>x\<in>set (echoes a). in_range (echo_amp x)"
    and eb: "\<forall>x\<in>set (echoes b). in_range (echo_amp x)"
    by (simp_all add: values_in_range_def list_all_iff)
  have comm: "merged_noise b a = ?N" using merged_noise_commute[OF aligned] by simp
  have lenN: "length ?N = length (noise a)" using len by (simp add: merged_noise_def)
  have mna: "merge_noise (noise a) (noise b) = (None, ?N)"
    by (rule merge_noise_aligned[OF len na nb])
  have mnb: "merge_noise (noise b) (noise a) = (None, ?N)"
    using merge_noise_aligned[OF len[symmetric] nb na] comm by simp
  have okb: "\<forall>e\<in>set (echoes b). index_ok (length ?N) (fst e)" using ok lenN by simp
  have oka: "\<forall>e\<in>set (echoes a). index_ok (length ?N) (fst e)" using ok lenN by simp
  from merge_echoes_spec[OF da db okb ea eb] obtain r1 where
    m1: "merge_echoes ?N (echoes a) (echoes b) = (None, r1)" and d1: "distinct (map echo_key r1)"
    and v1: "\<And>k. echo_map r1 k = merged_amp ?N k (echo_map (echoes a) k) (echo_map (echoes b) k)"
    by blast
  from merge_echoes_spec[OF db da oka eb ea] obtain r2 where
    m2: "merge_echoes ?N (echoes b) (echoes a) = (None, r2)" and d2: "distinct (map echo_key r2)"
    and v2: "\<And>k. echo_map r2 k = merged_amp ?N k (echo_map (echoes b) k) (echo_map (echoes a) k)"
    by blast
  have diff1: "set r1 - set r2 = weak_one_sided a b"
    unfolding weak_one_sided_def by (rule merged_difference[OF da db d1 d2 v1 v2])
  have diff2: "set r2 - set r1 = weak_one_sided b a"
    unfolding weak_one_sided_def comm by (rule merged_difference[OF db da d2 d1 v2 v1])
  have eq: "set r1 = set r2 \<longleftrightarrow> weak_one_sided a b = {} \<and> weak_one_sided b a = {}"
    unfolding diff1[symmetric] diff2[symmetric] by blast
  have "add a b = Inr (a\<lparr>noise := ?N, echoes := r1\<rparr>)"
    by (simp add: add_def mna m1)
  moreover have "add b a = Inr (b\<lparr>noise := ?N, echoes := r2\<rparr>)"
    by (simp add: add_def mnb m2)
  ultimately show ?thesis using diff1 diff2 eq by simp
qed

text \<open>
  Two records sharing one echo position, each with a strong echo of its own: the two sums have
  the same echoes. A record with a weak echo of its own and one with a strong echo: the sums
  differ by the weak echo.
\<close>

theorem add_commutes_witness:
  "map fst (noise pair_left_example) = map fst (noise pair_right_example)
   \<and> distinct (map echo_key (echoes pair_left_example))
   \<and> distinct (map echo_key (echoes pair_right_example))
   \<and> index_ok (length (noise pair_left_example)) 0
   \<and> values_in_range pair_left_example \<and> values_in_range pair_right_example
   \<and> weak_one_sided pair_left_example pair_right_example = {}
   \<and> weak_one_sided pair_right_example pair_left_example = {}
   \<and> (\<exists>c d. add pair_left_example pair_right_example = Inr c
         \<and> add pair_right_example pair_left_example = Inr d
         \<and> noise c = noise d \<and> set (echoes c) = set (echoes d))
   \<and> weak_one_sided weak_echo_example one_freq_example = {(0, 10, IntV 0)}
   \<and> weak_one_sided one_freq_example weak_echo_example = {}
   \<and> (\<exists>c d. add weak_echo_example one_freq_example = Inr c
         \<and> add one_freq_example weak_echo_example = Inr d
         \<and> noise c = noise d \<and> set (echoes c) - set (echoes d) = {(0, 10, IntV 0)}
         \<and> set (echoes d) - set (echoes c) = {})"
proof -
  let ?a = pair_left_example and ?b = pair_right_example
  have al: "map fst (noise ?a) = map fst (noise ?b)"
    by (simp add: pair_left_example_def pair_right_example_def)
  have da: "distinct (map echo_key (echoes ?a))"
    by (simp add: pair_left_example_def echo_key_def)
  have db: "distinct (map echo_key (echoes ?b))"
    by (simp add: pair_right_example_def echo_key_def)
  have i0: "index_ok (length (noise ?a)) 0"
    by (simp add: pair_left_example_def index_ok_def)
  have ok: "\<forall>e\<in>set (echoes ?a) \<union> set (echoes ?b). index_ok (length (noise ?a)) (fst e)"
    using i0 by (simp add: pair_left_example_def pair_right_example_def)
  have ra: "values_in_range ?a"
    by (simp add: values_in_range_def pair_left_example_def in_range_def echo_amp_def)
  have rb: "values_in_range ?b"
    by (simp add: values_in_range_def pair_right_example_def in_range_def echo_amp_def)
  have lvl: "noise_level (merged_noise ?a ?b) 0 = Fin (20 * log 10 2)"
    by (simp add: noise_level_def merged_noise_def combine_noise_def pair_left_example_def
        pair_right_example_def db_level_zero)
  have lvl': "noise_level (merged_noise ?b ?a) 0 = Fin (20 * log 10 2)"
    by (simp add: noise_level_def merged_noise_def combine_noise_def pair_left_example_def
        pair_right_example_def db_level_zero)
  have g30: "fgt (Fin 30) (Fin (20 * log 10 2))" by (rule fgt_above_log2) simp
  have g40: "fgt (Fin 40) (Fin (20 * log 10 2))" by (rule fgt_above_log2) simp
  have wa: "weak_one_sided ?a ?b = {}"
    unfolding weak_one_sided_def using g30 lvl
    by (auto simp: pair_left_example_def pair_right_example_def echo_key_def echo_amp_def)
  have wb: "weak_one_sided ?b ?a = {}"
    unfolding weak_one_sided_def using g40 lvl'
    by (auto simp: pair_left_example_def pair_right_example_def echo_key_def echo_amp_def)
  from add_commutes_up_to_weak_one_sided_echoes[OF al da db ok ra rb]
  have first: "\<exists>c d. add ?a ?b = Inr c \<and> add ?b ?a = Inr d \<and> noise c = noise d
         \<and> set (echoes c) = set (echoes d)" using wa wb by auto
  let ?w = weak_echo_example and ?o = one_freq_example
  have al2: "map fst (noise ?w) = map fst (noise ?o)"
    by (simp add: weak_echo_example_def one_freq_example_def)
  have dw: "distinct (map echo_key (echoes ?w))"
    by (simp add: weak_echo_example_def echo_key_def)
  have do: "distinct (map echo_key (echoes ?o))"
    by (simp add: one_freq_example_def echo_key_def)
  have ok2: "\<forall>e\<in>set (echoes ?w) \<union> set (echoes ?o). index_ok (length (noise ?w)) (fst e)"
    by (simp add: weak_echo_example_def one_freq_example_def index_ok_def)
  have rw: "values_in_range ?w"
    by (simp add: values_in_range_def weak_echo_example_def in_range_def echo_amp_def)
  have ro: "values_in_range ?o"
    by (simp add: values_in_range_def one_freq_example_def in_range_def echo_amp_def)
  have lvl2: "noise_level (merged_noise ?w ?o) 0 = Fin (20 * log 10 2)"
    by (simp add: noise_level_def merged_noise_def combine_noise_def weak_echo_example_def
        one_freq_example_def db_level_zero)
  have lvl2': "noise_level (merged_noise ?o ?w) 0 = Fin (20 * log 10 2)"
    by (simp add: noise_level_def merged_noise_def combine_noise_def weak_echo_example_def
        one_freq_example_def db_level_zero)
  have ww: "weak_one_sided ?w ?o = {(0, 10, IntV 0)}"
    unfolding weak_one_sided_def using not_fgt_zero_log2 lvl2
    by (auto simp: weak_echo_example_def one_freq_example_def echo_key_def echo_amp_def)
  have wo: "weak_one_sided ?o ?w = {}"
    unfolding weak_one_sided_def using g30 lvl2'
    by (auto simp: weak_echo_example_def one_freq_example_def echo_key_def echo_amp_def)
  from add_commutes_up_to_weak_one_sided_echoes[OF al2 dw do ok2 rw ro]
  have second: "\<exists>c d. add ?w ?o = Inr c \<and> add ?o ?w = Inr d \<and> noise c = noise d
         \<and> set (echoes c) - set (echoes d) = {(0, 10, IntV 0)}
         \<and> set (echoes d) - set (echoes c) = {}" using ww wo by auto
  from al da db i0 ra rb wa wb first ww wo second show ?thesis by blast
qed

text \<open>
  C3 as stated fails when an echo present in only one operand is below the combined noise
  level: the addition keeps it when it belongs to the left operand and drops it when it belongs
  to the right one. With a noise value 7000 the addition raises OverflowError.
\<close>

theorem add_not_commutative_counterexample:
  "add weak_echo_example one_freq_example =
     Inr (weak_echo_example\<lparr>noise := [(0, FloatV (Fin (20 * log 10 2)))],
            echoes := [(0, 10, IntV 0), (0, 20, IntV 30)]\<rparr>)
   \<and> add one_freq_example weak_echo_example =
     Inr (one_freq_example\<lparr>noise := [(0, FloatV (Fin (20 * log 10 2)))],
            echoes := [(0, 20, IntV 30)]\<rparr>)
   \<and> set [(0 :: int, 10 :: int, IntV 0), (0, 20, IntV 30)] \<noteq> set [(0, 20, IntV 30)]
   \<and> add loud_noise_example loud_noise_example = Inl OverflowError"
proof -
  have n1: "merge_noise (noise weak_echo_example) (noise one_freq_example)
         = (None, [(0, FloatV (Fin (20 * log 10 2)))])"
    by (simp add: weak_echo_example_def one_freq_example_def dbsum_zero)
  have n2: "merge_noise (noise one_freq_example) (noise weak_echo_example)
         = (None, [(0, FloatV (Fin (20 * log 10 2)))])"
    by (simp add: weak_echo_example_def one_freq_example_def dbsum_zero)
  have g: "fgt (Fin 30) (Fin (20 * log 10 2))" by (rule fgt_above_log2) simp
  note ng = not_fgt_zero_log2
  have e1: "merge_echoes [(0, FloatV (Fin (20 * log 10 2)))] (echoes weak_echo_example)
             (echoes one_freq_example) = (None, [(0, 10, IntV 0), (0, 20, IntV 30)])"
    using g by (simp add: weak_echo_example_def one_freq_example_def merge_echo_def py_index_def)
  have e2: "merge_echoes [(0, FloatV (Fin (20 * log 10 2)))] (echoes one_freq_example)
             (echoes weak_echo_example) = (None, [(0, 20, IntV 30)])"
    using ng by (simp add: weak_echo_example_def one_freq_example_def merge_echo_def py_index_def)
  have "add weak_echo_example one_freq_example =
     Inr (weak_echo_example\<lparr>noise := [(0, FloatV (Fin (20 * log 10 2)))],
            echoes := [(0, 10, IntV 0), (0, 20, IntV 30)]\<rparr>)"
    by (simp add: add_def n1 e1)
  moreover have "add one_freq_example weak_echo_example =
     Inr (one_freq_example\<lparr>noise := [(0, FloatV (Fin (20 * log 10 2)))],
            echoes := [(0, 20, IntV 30)]\<rparr>)"
    by (simp add: add_def n2 e2)
  moreover have "set [(0 :: int, 10 :: int, IntV 0), (0, 20, IntV 30)] \<noteq> set [(0, 20, IntV 30)]"
    by simp
  moreover have "add loud_noise_example loud_noise_example = Inl OverflowError"
  proof -
    have "dbsum (IntV 7000) (IntV 7000) = Inl OverflowError"
      by (simp only: dbsum_def lin_7000 sum.case)
    then show ?thesis by (simp add: add_def loud_noise_example_def)
  qed
  ultimately show ?thesis by blast
qed

section \<open>Encoding followed by decoding\<close>

lemma wthen_assoc: "wthen a (wthen b c) = wthen (wthen a b) c"
  by (cases a; cases b; cases c) (auto simp: wthen_def split: option.splits)

lemma parse_loop_append:
  "length as mod 4 = 0 \<Longrightarrow> parse_loop st (as @ bs) = parse_loop (parse_loop st as) bs"
  by (simp add: parse_loop_groups groups_append)

lemma emits_nothing: "emits ([], None) (\<lambda>st. st)"
  by (simp add: emits_def)

lemma emits_wthen:
  assumes "emits w1 t1" and "emits w2 t2"
  shows "emits (wthen w1 w2) (\<lambda>st. t2 (t1 st))"
proof -
  from assms(1) obtain as where a: "w1 = (as, None)" "length as mod 4 = 0"
    "\<And>st. parse_loop st as = t1 st" by (auto simp: emits_def)
  from assms(2) obtain bs where b: "w2 = (bs, None)" "length bs mod 4 = 0"
    "\<And>st. parse_loop st bs = t2 st" by (auto simp: emits_def)
  have 1: "wthen w1 w2 = (as @ bs, None)" by (simp add: a b wthen_def)
  have 2: "length (as @ bs) mod 4 = 0" using a(2) b(2) by (simp add: mod_add_eq[symmetric])
  have 3: "\<forall>st. parse_loop st (as @ bs) = t2 (t1 st)"
    by (simp add: parse_loop_append[OF a(2)] a(3) b(3))
  show ?thesis unfolding emits_def
    by (rule exI[of _ "as @ bs"]) (simp only: 1 2 3 simp_thms)
qed

lemma emits_wfor:
  "(\<And>x. x \<in> set xs \<Longrightarrow> emits (f x) (t x)) \<Longrightarrow>
   emits (wfor f xs) (\<lambda>st. foldl (\<lambda>s x. t x s) st xs)"
proof (induction xs)
  case Nil
  then show ?case by (simp add: emits_nothing)
next
  case (Cons x xs)
  have "emits (wthen (f x) (wfor f xs)) (\<lambda>st. foldl (\<lambda>s x. t x s) (t x st) xs)"
    by (rule emits_wthen) (use Cons in simp_all)
  then show ?case by simp
qed

lemma be_digits_2: "be_digits 2 v = [word_of_int (v div 256), word_of_int v]"
  by (simp add: numeral_2_eq_2)

lemma to_bytes_2: "0 \<le> v \<Longrightarrow> v < 65536 \<Longrightarrow> to_bytes v 2 = Inr [word_of_int (v div 256), word_of_int v]"
  by (simp add: to_bytes_def be_digits_2)

lemma uint_high_byte: "0 \<le> v \<Longrightarrow> v < 65536 \<Longrightarrow> uint (word_of_int (v div 256) :: byte) = v div 256"
  by (simp add: uint_word_of_int take_bit_eq_mod) 

lemma uint_low_byte: "uint (word_of_int v :: byte) = v mod 256"
  by (simp add: uint_word_of_int take_bit_eq_mod)

lemma from_bytes_2:
  "0 \<le> v \<Longrightarrow> v < 65536 \<Longrightarrow> from_bytes [word_of_int (v div 256), word_of_int v :: byte] = v"
  by (simp add: from_bytes_def uint_high_byte uint_low_byte)

lemma group_of_four: "groups [a, b, c, d] = [[a, b, c, d]]"
  by simp

lemma parse_loop_four: "parse_loop st [a, b, c, d] = parse_group st [a, b, c, d]"
  by simp


lemma parse_group_words:
  assumes "0 \<le> x" "x < 65536" "0 \<le> y" "y < 65536"
  shows "parse_group st [word_of_int (x div 256), word_of_int x, word_of_int (y div 256), word_of_int y]
     = (if 32768 \<le> x then
          (if y \<noteq> 1 then st\<lparr>ifn_cnt := ifn_cnt st + 1, p_out := p_out st @ [''ERROR in align!'']\<rparr>
           else st\<lparr>ifn_cnt := ifn_cnt st + 1\<rparr>)
        else if y = 1 then st\<lparr>p_noise := p_noise st @ [(ifn_cnt st, IntV x)]\<rparr>
        else st\<lparr>p_echoes := p_echoes st @ [(ifn_cnt st, y, IntV x)]\<rparr>)"
proof -
  have hd: "check_new_cluster [word_of_int (x div 256), word_of_int x :: byte] cluster_flag \<longleftrightarrow> 32768 \<le> x"
    using assms(1,2) by (simp add: check_new_cluster_iff uint_high_byte) presburger
  have fx: "from_bytes [word_of_int (x div 256), word_of_int x :: byte] = x"
    by (rule from_bytes_2[OF assms(1,2)])
  have fy: "from_bytes [word_of_int (y div 256), word_of_int y :: byte] = y"
    by (rule from_bytes_2[OF assms(3,4)])
  show ?thesis
    by (simp add: parse_group_def hd fx fy Let_def)
qed

lemma emits_words:
  assumes "0 \<le> x" "x < 65536" "0 \<le> y" "y < 65536"
  shows "emits (wthen (wbytes (to_bytes x 2)) (wbytes (to_bytes y 2)))
     (\<lambda>st. parse_group st [word_of_int (x div 256), word_of_int x, word_of_int (y div 256), word_of_int y])"
  unfolding emits_def
  by (rule exI[of _ "[word_of_int (x div 256), word_of_int x, word_of_int (y div 256), word_of_int y]"])
     (simp add: to_bytes_2 assms wthen_def wbytes_def)

lemma or_flag_bounds:
  assumes "0 \<le> v" "v < 65536"
  shows "32768 \<le> v OR 32768" and "v OR 32768 < 65536" and "0 \<le> v OR (32768::int)"
proof -
  have "(32768::int) \<le> 32768 OR v" by (rule or_greater_eq[OF assms(1)])
  then show "32768 \<le> v OR 32768" by (simp add: or.commute)
  have "v OR 32768 < 2 ^ 16" by (rule OR_upper) (use assms in simp_all)
  then show "v OR 32768 < 65536" by simp
  show "0 \<le> v OR (32768::int)" using assms(1) by simp
qed

lemma emits_header:
  assumes "0 \<le> ifn" "ifn + 1 < 65536"
  shows "emits (wthen (wbytes (to_bytes ((ifn + 1) OR 32768) 2)) (wbytes (to_bytes align 2)))
           (\<lambda>st. st\<lparr>ifn_cnt := ifn_cnt st + 1\<rparr>)"
proof -
  let ?v = "(ifn + 1) OR 32768"
  have b: "32768 \<le> ?v" "?v < 65536" "0 \<le> ?v" using or_flag_bounds[of "ifn + 1"] assms by simp_all
  have "emits (wthen (wbytes (to_bytes ?v 2)) (wbytes (to_bytes 1 2)))
     (\<lambda>st. parse_group st [word_of_int (?v div 256), word_of_int ?v, word_of_int (1 div 256), word_of_int 1])"
    by (rule emits_words) (use b in simp_all)
  moreover have "parse_group st [word_of_int (?v div 256), word_of_int ?v, word_of_int (1 div 256), word_of_int 1]
      = st\<lparr>ifn_cnt := ifn_cnt st + 1\<rparr>" for st
    using parse_group_words[of ?v 1 st] b by simp
  ultimately show ?thesis by (simp add: align_def)
qed

lemma int_to_bytes2_integral:
  "0 \<le> z \<Longrightarrow> z < 65536 \<Longrightarrow> int_to_bytes2 (Fin (of_int z)) = to_bytes z 2"
  by (simp add: int_to_bytes2_def)

lemma emits_noise:
  assumes "0 \<le> z" "z < 32768"
  shows "emits (wthen (wbytes (int_to_bytes2 (Fin (of_int z)))) (wbytes (to_bytes align 2)))
           (\<lambda>st. st\<lparr>p_noise := p_noise st @ [(ifn_cnt st, IntV z)]\<rparr>)"
proof -
  have "emits (wthen (wbytes (to_bytes z 2)) (wbytes (to_bytes 1 2)))
     (\<lambda>st. parse_group st [word_of_int (z div 256), word_of_int z, word_of_int (1 div 256), word_of_int 1])"
    by (rule emits_words) (use assms in simp_all)
  moreover have "parse_group st [word_of_int (z div 256), word_of_int z, word_of_int (1 div 256), word_of_int 1]
      = st\<lparr>p_noise := p_noise st @ [(ifn_cnt st, IntV z)]\<rparr>" for st
    using parse_group_words[of z 1 st] assms by simp
  ultimately show ?thesis using assms by (simp add: align_def int_to_bytes2_integral)
qed

lemma emits_echo:
  assumes "0 \<le> z" "z < 32768" "0 \<le> it" "it < 65536" "it \<noteq> 1"
  shows "emits (wthen (wbytes (int_to_bytes2 (Fin (of_int z)))) (wbytes (to_bytes it 2)))
           (\<lambda>st. st\<lparr>p_echoes := p_echoes st @ [(ifn_cnt st, it, IntV z)]\<rparr>)"
proof -
  have "emits (wthen (wbytes (to_bytes z 2)) (wbytes (to_bytes it 2)))
     (\<lambda>st. parse_group st [word_of_int (z div 256), word_of_int z, word_of_int (it div 256), word_of_int it])"
    by (rule emits_words) (use assms in simp_all)
  moreover have "parse_group st [word_of_int (z div 256), word_of_int z, word_of_int (it div 256), word_of_int it]
      = st\<lparr>p_echoes := p_echoes st @ [(ifn_cnt st, it, IntV z)]\<rparr>" for st
    using parse_group_words[of z it st] assms by simp
  ultimately show ?thesis using assms by (simp add: int_to_bytes2_integral)
qed




lemma norm_index_nat: "0 \<le> i \<Longrightarrow> i < int n \<Longrightarrow> norm_index n i = Inr (nat i)"
  by (simp add: norm_index_def)

lemma py_index_nat: "0 \<le> i \<Longrightarrow> i < int (length xs) \<Longrightarrow> py_index xs i = Inr (xs ! nat i)"
  by (simp add: py_index_def)

lemma mat_set_ok:
  assumes "mat_ok m nh nf" "0 \<le> h" "h < int nh" "0 \<le> f" "f < int nf"
  shows "mat_set m h f a = Inr (m[nat h := (m ! nat h)[nat f := a]])"
    and "mat_ok (m[nat h := (m ! nat h)[nat f := a]]) nh nf"
    and "\<And>i j. i < nh \<Longrightarrow> j < nf \<Longrightarrow>
          (m[nat h := (m ! nat h)[nat f := a]]) ! i ! j = (if int i = h \<and> int j = f then a else m ! i ! j)"
proof -
  from assms have lm: "length m = nh" and lr: "length (m ! nat h) = nf" and hn: "nat h < nh"
    by (auto simp: mat_ok_def)
  show "mat_set m h f a = Inr (m[nat h := (m ! nat h)[nat f := a]])"
    using assms by (simp add: mat_set_def lm lr norm_index_nat)
  show "mat_ok (m[nat h := (m ! nat h)[nat f := a]]) nh nf"
    using assms(1) hn by (auto simp: mat_ok_def nth_list_update)
  fix i j assume "i < nh" "j < nf"
  then show "(m[nat h := (m ! nat h)[nat f := a]]) ! i ! j = (if int i = h \<and> int j = f then a else m ! i ! j)"
    using assms lm lr by (auto simp: nth_list_update)
qed

lemma fill_matrix_spec:
  "mat_ok m nh nf \<Longrightarrow> distinct (map echo_key es) \<Longrightarrow>
   (\<forall>e\<in>set es. 0 \<le> fst e \<and> fst e < int nf \<and> 0 \<le> fst (snd e) \<and> fst (snd e) < int nh) \<Longrightarrow>
   \<exists>m'. fill_matrix m (int nh) es = (None, m') \<and> mat_ok m' nh nf
      \<and> (\<forall>i<nh. \<forall>j<nf. m' ! i ! j =
            (case echo_map es (int j, int i) of Some a \<Rightarrow> to_float a | None \<Rightarrow> m ! i ! j))"
proof (induction es arbitrary: m)
  case Nil
  then show ?case by (simp add: echo_map_def)
next
  case (Cons e es)
  obtain f h a where e: "e = (f, h, a)" by (cases e)
  from Cons.prems e have r: "0 \<le> f" "f < int nf" "0 \<le> h" "h < int nh" by auto
  note ms = mat_set_ok[OF Cons.prems(1) r(3,4,1,2), where a = "to_float a"]
  let ?m1 = "m[nat h := (m ! nat h)[nat f := to_float a]]"
  from Cons.prems have d: "distinct (map echo_key es)" and nk: "echo_key e \<notin> echo_key ` set es"
    and rs: "\<forall>e\<in>set es. 0 \<le> fst e \<and> fst e < int nf \<and> 0 \<le> fst (snd e) \<and> fst (snd e) < int nh"
    by auto
  from Cons.IH[OF ms(2) d rs] obtain m' where
    f': "fill_matrix ?m1 (int nh) es = (None, m')" and ok': "mat_ok m' nh nf"
    and c': "\<And>i j. i < nh \<Longrightarrow> j < nf \<Longrightarrow> m' ! i ! j =
            (case echo_map es (int j, int i) of Some a \<Rightarrow> to_float a | None \<Rightarrow> ?m1 ! i ! j)" by blast
  from nk have none: "echo_map es (f, h) = None" by (simp add: echo_map_None e echo_key_triple)
  have "fill_matrix m (int nh) (e # es) = (None, m')"
    using f' r ms(1) by (simp add: e)
  moreover have "m' ! i ! j = (case echo_map (e # es) (int j, int i) of Some a \<Rightarrow> to_float a | None \<Rightarrow> m ! i ! j)"
    if "i < nh" "j < nf" for i j
  proof (cases "int i = h \<and> int j = f")
    case True
    then show ?thesis using c'[OF that] ms(3)[OF that] none
      by (simp add: echo_map_Cons e echo_key_triple echo_amp_triple)
  next
    case False
    then have "(int j, int i) \<noteq> (f, h)" by auto
    then show ?thesis using c'[OF that] ms(3)[OF that] False
      by (auto simp: echo_map_Cons e echo_key_triple echo_amp_triple split: option.split)
  qed
  ultimately show ?case using ok' by blast
qed

lemma mat_ok_replicate: "mat_ok (replicate nh (replicate nf NaN)) nh nf"
  by (simp add: mat_ok_def)

lemma get_ionogram_spec:
  assumes "\<not> np_any (ionogram_matrix r)" "0 \<le> nheights r" "0 \<le> nfrequences r"
    and "distinct (map echo_key (echoes r))"
    and "\<forall>e\<in>set (echoes r). 0 \<le> fst e \<and> fst e < nfrequences r
            \<and> 0 \<le> fst (snd e) \<and> fst (snd e) < nheights r"
  shows "\<exists>m. fst (get_ionogram r False) = Inr m \<and> mat_ok m (nat (nheights r)) (nat (nfrequences r))
     \<and> (\<forall>i<nat (nheights r). \<forall>j<nat (nfrequences r). m ! i ! j = dense_cell (echoes r) i j)"
proof -
  let ?nh = "nat (nheights r)" and ?nf = "nat (nfrequences r)"
  have full: "np_full (nheights r) (nfrequences r) = Inr (replicate ?nh (replicate ?nf NaN))"
    using assms(2,3) by (simp add: np_full_def)
  have rng: "\<forall>e\<in>set (echoes r). 0 \<le> fst e \<and> fst e < int ?nf \<and> 0 \<le> fst (snd e) \<and> fst (snd e) < int ?nh"
    using assms(2,3,5) by auto
  from fill_matrix_spec[OF mat_ok_replicate assms(4) rng] obtain m where
    f: "fill_matrix (replicate ?nh (replicate ?nf NaN)) (int ?nh) (echoes r) = (None, m)"
    and ok: "mat_ok m ?nh ?nf"
    and c: "\<And>i j. i < ?nh \<Longrightarrow> j < ?nf \<Longrightarrow> m ! i ! j =
       (case echo_map (echoes r) (int j, int i) of Some a \<Rightarrow> to_float a
        | None \<Rightarrow> replicate ?nh (replicate ?nf NaN) ! i ! j)" by blast
  have inh: "int ?nh = nheights r" using assms(2) by simp
  from f have f2: "fill_matrix (replicate ?nh (replicate ?nf NaN)) (nheights r) (echoes r) = (None, m)"
    by (simp only: inh)
  have "fst (get_ionogram r False) = Inr m"
    using assms(1) by (simp add: get_ionogram_def full f2)
  moreover have "m ! i ! j = dense_cell (echoes r) i j" if "i < ?nh" "j < ?nf" for i j
    using c[OF that] that by (simp add: dense_cell_def split: option.split)
  ultimately show ?thesis using ok by blast
qed





lemma cell_value_int: "cell_value (Fin (of_int z)) = z"
  by (simp add: cell_value_def)

lemma mat_get_ok:
  "mat_ok m nh nf \<Longrightarrow> 0 \<le> it \<Longrightarrow> it < int nh \<Longrightarrow> 0 \<le> ifn \<Longrightarrow> ifn < int nf \<Longrightarrow>
   mat_get m it ifn = Inr (m ! nat it ! nat ifn)"
  by (simp add: mat_get_def mat_ok_def py_index_nat)

lemma emits_height:
  assumes "mat_ok m nh nf" "0 \<le> it" "it < int nh" "0 \<le> ifn" "ifn < int nf"
    and "cell_ok (m ! nat it ! nat ifn) it"
  shows "emits (write_height m ifn it) (after_height (m ! nat it ! nat ifn) it)"
proof -
  let ?c = "m ! nat it ! nat ifn"
  have g: "mat_get m it ifn = Inr ?c" by (rule mat_get_ok[OF assms(1,2,3,4,5)])
  show ?thesis
  proof (cases "?c = NaN")
    case True
    have "after_height NaN it = (\<lambda>st. st)" by (rule ext) (simp add: after_height_def)
    then show ?thesis using True emits_nothing by (simp add: write_height_def g)
  next
    case False
    with assms(6) obtain z where z: "?c = Fin (of_int z)" "0 \<le> z" "z < 32768" "it \<noteq> 1"
      "it < 65536" by (auto simp: cell_ok_def)
    have "emits (wthen (wbytes (int_to_bytes2 (Fin (of_int z)))) (wbytes (to_bytes it 2)))
           (\<lambda>st. st\<lparr>p_echoes := p_echoes st @ [(ifn_cnt st, it, IntV z)]\<rparr>)"
      by (rule emits_echo[OF z(2,3) assms(2) z(5,4)])
    moreover have "after_height (Fin (of_int z)) it =
        (\<lambda>st. st\<lparr>p_echoes := p_echoes st @ [(ifn_cnt st, it, IntV z)]\<rparr>)"
      by (rule ext) (simp add: after_height_def cell_value_int)
    ultimately show ?thesis by (simp add: write_height_def g z(1))
  qed
qed

lemma fold_heights:
  "foldl (\<lambda>s it. after_height (col it) it s) st its =
     st\<lparr>p_echoes := p_echoes st @
          map (\<lambda>it. (ifn_cnt st, it, IntV (cell_value (col it))))
              (filter (\<lambda>it. \<not> isnan (col it)) its)\<rparr>"
proof (induction its arbitrary: st)
  case Nil
  then show ?case by simp
next
  case (Cons it its)
  let ?F = "\<lambda>s it. after_height (col it) it s"
  have "foldl ?F st (it # its) = foldl ?F (after_height (col it) it st) its" by simp
  also have "\<dots> = (after_height (col it) it st)\<lparr>p_echoes := p_echoes (after_height (col it) it st) @
          map (\<lambda>it'. (ifn_cnt (after_height (col it) it st), it', IntV (cell_value (col it'))))
              (filter (\<lambda>it. \<not> isnan (col it)) its)\<rparr>"
    by (simp only: Cons)
  also have "\<dots> = st\<lparr>p_echoes := p_echoes st @
          map (\<lambda>it. (ifn_cnt st, it, IntV (cell_value (col it))))
              (filter (\<lambda>it. \<not> isnan (col it)) (it # its))\<rparr>"
    by (simp add: after_height_def)
  finally show ?case .
qed

lemma emits_eq: "emits w t \<Longrightarrow> (\<And>st. t st = t' st) \<Longrightarrow> emits w t'"
  by (simp add: emits_def)

lemma emits_cluster:
  assumes ok: "mat_ok m nh nf" and ifn: "0 \<le> ifn" "ifn < int nf" "ifn + 1 < 65536"
    and nv: "noise_at ns ifn = Inr (Fin (of_int z))" "0 \<le> z" "z < 32768"
    and cells: "\<forall>it\<in>set (py_range (int nh)). cell_ok (m ! nat it ! nat ifn) it"
  shows "emits (write_cluster ns m (int nh) ifn)
           (after_cluster z (\<lambda>it. m ! nat it ! nat ifn) (py_range (int nh)))"
proof -
  let ?A = "wbytes (to_bytes ((ifn + 1) OR 32768) 2)"
  let ?B = "wbytes (to_bytes align 2)"
  let ?C = "wbytes (int_to_bytes2 (Fin (of_int z)))"
  let ?E = "wfor (write_height m ifn) (py_range (int nh))"
  have wc: "write_cluster ns m (int nh) ifn = wthen (wthen ?A ?B) (wthen (wthen ?C ?B) ?E)"
    by (simp add: write_cluster_def nv(1) wthen_assoc)
  have h: "emits (wthen ?A ?B) (\<lambda>st. st\<lparr>ifn_cnt := ifn_cnt st + 1\<rparr>)"
    by (rule emits_header[OF ifn(1,3)])
  have n: "emits (wthen ?C ?B) (\<lambda>st. st\<lparr>p_noise := p_noise st @ [(ifn_cnt st, IntV z)]\<rparr>)"
    by (rule emits_noise[OF nv(2,3)])
  have e: "emits ?E (\<lambda>st. foldl (\<lambda>s it. after_height (m ! nat it ! nat ifn) it s) st (py_range (int nh)))"
  proof (rule emits_wfor)
    fix it assume i: "it \<in> set (py_range (int nh))"
    then have r: "0 \<le> it" "it < int nh" by (auto simp: py_range_def)
    from cells i have c: "cell_ok (m ! nat it ! nat ifn) it" by auto
    show "emits (write_height m ifn it) (after_height (m ! nat it ! nat ifn) it)"
      by (rule emits_height[OF ok r ifn(1,2) c])
  qed
  have "emits (wthen (wthen ?A ?B) (wthen (wthen ?C ?B) ?E))
     (\<lambda>st. (\<lambda>st. (\<lambda>st. foldl (\<lambda>s it. after_height (m ! nat it ! nat ifn) it s) st (py_range (int nh)))
                   ((\<lambda>st. st\<lparr>p_noise := p_noise st @ [(ifn_cnt st, IntV z)]\<rparr>) st))
            ((\<lambda>st. st\<lparr>ifn_cnt := ifn_cnt st + 1\<rparr>) st))"
    by (rule emits_wthen[OF h emits_wthen[OF n e]])
  then show ?thesis unfolding wc
    by (rule emits_eq) (simp add: fold_heights after_cluster_def)
qed

lemma fold_clusters:
  "foldl (\<lambda>s ifn. after_cluster (nv ifn) (col ifn) its s) st (map int [0..<k]) =
     st\<lparr>ifn_cnt := ifn_cnt st + int k,
        p_noise := p_noise st @ map (\<lambda>i. (ifn_cnt st + 1 + int i, IntV (nv (int i)))) [0..<k],
        p_echoes := p_echoes st @
          concat (map (\<lambda>i. map (\<lambda>it. (ifn_cnt st + 1 + int i, it, IntV (cell_value (col (int i) it))))
                               (filter (\<lambda>it. \<not> isnan (col (int i) it)) its)) [0..<k])\<rparr>"
proof (induction k)
  case 0
  then show ?case by simp
next
  case (Suc k)
  let ?F = "\<lambda>s ifn. after_cluster (nv ifn) (col ifn) its s"
  define R where "R = st\<lparr>ifn_cnt := ifn_cnt st + int k,
        p_noise := p_noise st @ map (\<lambda>i. (ifn_cnt st + 1 + int i, IntV (nv (int i)))) [0..<k],
        p_echoes := p_echoes st @
          concat (map (\<lambda>i. map (\<lambda>it. (ifn_cnt st + 1 + int i, it, IntV (cell_value (col (int i) it))))
                               (filter (\<lambda>it. \<not> isnan (col (int i) it)) its)) [0..<k])\<rparr>"
  have "foldl ?F st (map int [0..<Suc k]) = after_cluster (nv (int k)) (col (int k)) its (foldl ?F st (map int [0..<k]))"
    by simp
  also have "\<dots> = after_cluster (nv (int k)) (col (int k)) its R"
    unfolding R_def by (simp only: Suc)
  also have "\<dots> = st\<lparr>ifn_cnt := ifn_cnt st + int (Suc k),
        p_noise := p_noise st @ map (\<lambda>i. (ifn_cnt st + 1 + int i, IntV (nv (int i)))) [0..<Suc k],
        p_echoes := p_echoes st @
          concat (map (\<lambda>i. map (\<lambda>it. (ifn_cnt st + 1 + int i, it, IntV (cell_value (col (int i) it))))
                               (filter (\<lambda>it. \<not> isnan (col (int i) it)) its)) [0..<Suc k])\<rparr>"
    by (simp add: after_cluster_def R_def add.commute add.left_commute)
  finally show ?case .
qed



lemma dense_cell_ok:
  assumes d: "distinct (map echo_key es)"
    and v: "\<forall>e\<in>set es. fst (snd e) \<noteq> 1 \<and> fst (snd e) < 65536
              \<and> (\<exists>z. snd (snd e) = IntV z \<and> 0 \<le> z \<and> z < 32768)"
  shows "cell_ok (dense_cell es i j) (int i)"
proof (cases "echo_map es (int j, int i)")
  case None
  then show ?thesis by (simp add: dense_cell_def cell_ok_def)
next
  case (Some a)
  then have "(int j, int i, a) \<in> set es" using echo_map_Some[OF d] by simp
  with v have "int i \<noteq> 1 \<and> int i < 65536 \<and> (\<exists>z. a = IntV z \<and> 0 \<le> z \<and> z < 32768)"
    by fastforce
  then show ?thesis using Some by (auto simp: dense_cell_def cell_ok_def)
qed

lemma dense_cell_not_nan:
  assumes d: "distinct (map echo_key es)"
    and v: "\<forall>e\<in>set es. \<exists>z. snd (snd e) = IntV z"
  shows "\<not> isnan (dense_cell es i j) \<and> IntV (cell_value (dense_cell es i j)) = a
         \<longleftrightarrow> (int j, int i, a) \<in> set es"
proof (cases "echo_map es (int j, int i)")
  case None
  then have "(int j, int i, a) \<notin> set es" using echo_map_Some[OF d, of "int j" "int i" a] by simp
  then show ?thesis using None by (simp add: dense_cell_def)
next
  case (Some b)
  then have m: "(int j, int i, b) \<in> set es" using echo_map_Some[OF d] by simp
  with v obtain z where z: "b = IntV z" by fastforce
  have "(int j, int i, a) \<in> set es \<longleftrightarrow> a = b"
    using echo_map_Some[OF d, of "int j" "int i" a] Some by auto
  then show ?thesis using Some z by (auto simp: dense_cell_def cell_value_int)
qed

lemma noise_at_ok:
  "0 \<le> ifn \<Longrightarrow> ifn < int (length ns) \<Longrightarrow> noise_at ns ifn = Inr (to_float (snd (ns ! nat ifn)))"
  by (simp add: noise_at_def py_index_nat)

lemma in_column:
  "(f, h, a) \<in> set (map (\<lambda>it. (int i, it, c it i)) (filter (\<lambda>it. P it i) (map int [0..<nh])))
   \<longleftrightarrow> (\<exists>k<nh. f = int i \<and> h = int k \<and> P (int k) i \<and> a = c (int k) i)"
proof
  assume "(f, h, a) \<in> set (map (\<lambda>it. (int i, it, c it i)) (filter (\<lambda>it. P it i) (map int [0..<nh])))"
  then obtain it where it: "it \<in> set (filter (\<lambda>it. P it i) (map int [0..<nh]))"
    and e: "(f, h, a) = (int i, it, c it i)" unfolding set_map by (rule imageE)
  from it have "it \<in> int ` {0..<nh}" and p: "P it i" by simp_all
  then obtain k where k: "k < nh" "it = int k" by (auto simp only: image_iff atLeastLessThan_iff)
  show "\<exists>k<nh. f = int i \<and> h = int k \<and> P (int k) i \<and> a = c (int k) i"
    using k p e by (intro exI[of _ k]) simp
next
  assume "\<exists>k<nh. f = int i \<and> h = int k \<and> P (int k) i \<and> a = c (int k) i"
  then obtain k where k: "k < nh" and e: "f = int i" "h = int k" "a = c (int k) i"
    and p: "P (int k) i" by blast
  from k p have "int k \<in> set (filter (\<lambda>it. P it i) (map int [0..<nh]))" by simp
  then have "(int i, int k, c (int k) i) \<in>
      (\<lambda>it. (int i, it, c it i)) ` set (filter (\<lambda>it. P it i) (map int [0..<nh]))"
    by (rule imageI)
  then show "(f, h, a) \<in> set (map (\<lambda>it. (int i, it, c it i)) (filter (\<lambda>it. P it i) (map int [0..<nh])))"
    unfolding e set_map .
qed

lemma in_cluster_echoes:
  "(f, h, a) \<in> set (concat (map (\<lambda>i. map (\<lambda>it. (int i, it, c it i))
                           (filter (\<lambda>it. P it i) (map int [0..<nh]))) [0..<nf]))
   \<longleftrightarrow> (\<exists>i<nf. \<exists>k<nh. f = int i \<and> h = int k \<and> P (int k) i \<and> a = c (int k) i)"
proof -
  define g where "g = (\<lambda>i. map (\<lambda>it. (int i, it, c it i)) (filter (\<lambda>it. P it i) (map int [0..<nh])))"
  have "(f, h, a) \<in> set (concat (map g [0..<nf])) \<longleftrightarrow> (\<exists>i<nf. (f, h, a) \<in> set (g i))"
    by (simp add: Bex_def)
  also have "\<dots> \<longleftrightarrow> (\<exists>i<nf. \<exists>k<nh. f = int i \<and> h = int k \<and> P (int k) i \<and> a = c (int k) i)"
    unfolding g_def in_column ..
  finally show ?thesis unfolding g_def .
qed

lemma wthen_ok: "snd a = None \<Longrightarrow> wthen a w = (fst a @ fst w, snd w)"
  by (simp add: wthen_def)

lemma wbytes_ok: "wbytes (Inr bs) = (bs, None)"
  by (simp add: wbytes_def)

section \<open>Round trip through the file body\<close>

text \<open>
  C1, as the code has it. For a record that has no cached dense matrix, whose noise list has
  one entry per frequency index \<open>0 .. nfrequences - 1\<close> in order, with at most one echo per
  position, every echo at a frequency index in \<open>[0, nfrequences)\<close> and at a height index in
  \<open>[0, nheights)\<close> that is below \<open>2^16\<close> and not 1, and every noise value and amplitude a Python
  int in \<open>[0, 2^15)\<close>: \<^verbatim>\<open>writeion\<close> raises nothing while it writes the body, and decoding that
  body into a new object prints nothing and gives the noise list of the record and a list with
  the same set of echoes.
\<close>

theorem encode_decode_roundtrip:
  assumes v: "encodable r"
  shows "\<exists>bs. encode_body r = (bs, None)
     \<and> noise (fst (parse_ionogram init_ionogram bs)) = noise r
     \<and> set (echoes (fst (parse_ionogram init_ionogram bs))) = set (echoes r)
     \<and> snd (parse_ionogram init_ionogram bs) = []"
proof -
  let ?nh = "nat (nheights r)" and ?nf = "nat (nfrequences r)"
  from v have cache: "\<not> np_any (ionogram_matrix r)"
    and nf: "0 \<le> nfrequences r" "nfrequences r \<le> 65535" and nh: "0 \<le> nheights r"
    and ln: "length (noise r) = ?nf"
    and nz: "\<And>i. i < length (noise r) \<Longrightarrow> fst (noise r ! i) = int i
           \<and> (\<exists>z. snd (noise r ! i) = IntV z \<and> 0 \<le> z \<and> z < 32768)"
    and d: "distinct (map echo_key (echoes r))"
    and ev: "\<forall>e\<in>set (echoes r).
           0 \<le> fst e \<and> fst e < nfrequences r
         \<and> 0 \<le> fst (snd e) \<and> fst (snd e) < nheights r \<and> fst (snd e) \<noteq> 1 \<and> fst (snd e) < 65536
         \<and> (\<exists>z. snd (snd e) = IntV z \<and> 0 \<le> z \<and> z < 32768)"
    unfolding encodable_def by blast+
  have rng: "\<forall>e\<in>set (echoes r). 0 \<le> fst e \<and> fst e < nfrequences r
            \<and> 0 \<le> fst (snd e) \<and> fst (snd e) < nheights r" using ev by blast
  have ev1: "\<forall>e\<in>set (echoes r). fst (snd e) \<noteq> 1 \<and> fst (snd e) < 65536
              \<and> (\<exists>z. snd (snd e) = IntV z \<and> 0 \<le> z \<and> z < 32768)" using ev by blast
  have ev2: "\<forall>e\<in>set (echoes r). \<exists>z. snd (snd e) = IntV z" using ev by blast
  from get_ionogram_spec[OF cache nh nf(1) d rng] obtain m where
    gi: "fst (get_ionogram r False) = Inr m" and ok: "mat_ok m ?nh ?nf"
    and cell: "\<And>i j. i < ?nh \<Longrightarrow> j < ?nf \<Longrightarrow> m ! i ! j = dense_cell (echoes r) i j" by blast
  have inh: "int ?nh = nheights r" using nh by simp
  let ?its = "py_range (nheights r)"
  let ?nv = "\<lambda>ifn. cell_value (to_float (snd (noise r ! nat ifn)))"
  let ?col = "\<lambda>ifn it. m ! nat it ! nat ifn"
  have cl: "emits (write_cluster (noise r) m (nheights r) ifn) (after_cluster (?nv ifn) (?col ifn) ?its)"
    if "ifn \<in> set (py_range (nfrequences r))" for ifn
  proof -
    from that have i: "0 \<le> ifn" "ifn < int ?nf" "nat ifn < ?nf" by (auto simp: py_range_def)
    then have i1: "ifn + 1 < 65536" using nf by simp
    from nz[of "nat ifn"] i ln obtain z where z: "snd (noise r ! nat ifn) = IntV z" "0 \<le> z"
      "z < 32768" by auto
    have nvz: "?nv ifn = z" by (simp add: z(1) cell_value_int)
    have na: "noise_at (noise r) ifn = Inr (Fin (of_int z))"
      using noise_at_ok[of ifn "noise r"] i ln z(1) by simp
    have cells: "\<forall>it\<in>set (py_range (int ?nh)). cell_ok (m ! nat it ! nat ifn) it"
    proof
      fix it assume "it \<in> set (py_range (int ?nh))"
      then obtain k where k: "it = int k" "k < ?nh" using nh by (auto simp: py_range_def)
      have "cell_ok (dense_cell (echoes r) k (nat ifn)) (int k)" by (rule dense_cell_ok[OF d ev1])
      then show "cell_ok (m ! nat it ! nat ifn) it" using cell[OF k(2) i(3)] k(1) by simp
    qed
    from emits_cluster[OF ok i(1,2) i1 na z(2,3) cells] show ?thesis
      unfolding nvz using nh by simp
  qed
  let ?T = "\<lambda>st. foldl (\<lambda>s ifn. after_cluster (?nv ifn) (?col ifn) ?its s) st (py_range (nfrequences r))"
  have "emits (wfor (write_cluster (noise r) m (nheights r)) (py_range (nfrequences r))) ?T"
    by (rule emits_wfor) (rule cl)
  then obtain bs where bs: "write_body r m = (bs, None)" and dec: "\<And>st. parse_loop st bs = ?T st"
    unfolding emits_def write_body_def by blast
  let ?st0 = "\<lparr>ifn_cnt = -1, p_noise = [], p_echoes = [], p_out = []\<rparr>"
  have T0: "?T ?st0 = ?st0\<lparr>ifn_cnt := -1 + int ?nf,
        p_noise := [] @ map (\<lambda>i. (-1 + 1 + int i, IntV (?nv (int i)))) [0..<?nf],
        p_echoes := [] @
          concat (map (\<lambda>i. map (\<lambda>it. (-1 + 1 + int i, it, IntV (cell_value (?col (int i) it))))
                               (filter (\<lambda>it. \<not> isnan (?col (int i) it)) ?its)) [0..<?nf])\<rparr>"
    unfolding py_range_def[of "nfrequences r"]
    using fold_clusters[of ?nv ?col ?its ?st0 ?nf] by simp
  have pn: "p_noise (parse_loop ?st0 bs) =
      map (\<lambda>i. (int i, IntV (cell_value (to_float (snd (noise r ! i)))))) [0..<?nf]"
    unfolding dec T0 by simp
  have pe: "p_echoes (parse_loop ?st0 bs) =
      concat (map (\<lambda>i. map (\<lambda>it. (int i, it, IntV (cell_value (m ! nat it ! i))))
                           (filter (\<lambda>it. \<not> isnan (m ! nat it ! i)) ?its)) [0..<?nf])"
    unfolding dec T0 by simp
  have po: "p_out (parse_loop ?st0 bs) = []"
    unfolding dec T0 by simp
  have noise_eq: "map (\<lambda>i. (int i, IntV (cell_value (to_float (snd (noise r ! i)))))) [0..<?nf]
                  = noise r"
  proof (rule nth_equalityI)
    show "length (map (\<lambda>i. (int i, IntV (cell_value (to_float (snd (noise r ! i)))))) [0..<?nf])
          = length (noise r)"
      using ln by simp
    fix i assume "i < length (map (\<lambda>i. (int i, IntV (cell_value (to_float (snd (noise r ! i))))))
                                  [0..<?nf])"
    then have i: "i < ?nf" by simp
    from nz[of i] i ln obtain z where "fst (noise r ! i) = int i" and "snd (noise r ! i) = IntV z"
      by auto
    then show "map (\<lambda>i. (int i, IntV (cell_value (to_float (snd (noise r ! i)))))) [0..<?nf] ! i
               = noise r ! i"
      using i by (simp add: prod_eq_iff cell_value_int)
  qed
  have echo_eq: "set (concat (map (\<lambda>i. map (\<lambda>it. (int i, it, IntV (cell_value (m ! nat it ! i))))
                           (filter (\<lambda>it. \<not> isnan (m ! nat it ! i)) ?its)) [0..<?nf])) = set (echoes r)"
    (is "?L = ?R")
  proof (rule set_eqI)
    fix e :: "int \<times> int \<times> pynum"
    obtain f h a where e: "e = (f, h, a)" by (cases e)
    have "e \<in> ?L \<longleftrightarrow> (\<exists>i<?nf. \<exists>k<?nh. f = int i \<and> h = int k \<and> \<not> isnan (m ! k ! i)
                        \<and> a = IntV (cell_value (m ! k ! i)))"
      unfolding e py_range_def
      using in_cluster_echoes[of f h a "\<lambda>it i. IntV (cell_value (m ! nat it ! i))"
              "\<lambda>it i. \<not> isnan (m ! nat it ! i)" ?nh ?nf]
      by simp
    also have "\<dots> \<longleftrightarrow> (\<exists>i<?nf. \<exists>k<?nh. f = int i \<and> h = int k
                  \<and> \<not> isnan (dense_cell (echoes r) k i)
                  \<and> IntV (cell_value (dense_cell (echoes r) k i)) = a)"
      using cell by auto
    also have "\<dots> \<longleftrightarrow> (\<exists>i<?nf. \<exists>k<?nh. f = int i \<and> h = int k \<and> (int i, int k, a) \<in> set (echoes r))"
      using dense_cell_not_nan[OF d ev2] by simp
    also have "\<dots> \<longleftrightarrow> (f, h, a) \<in> set (echoes r)"
    proof
      assume "\<exists>i<?nf. \<exists>k<?nh. f = int i \<and> h = int k \<and> (int i, int k, a) \<in> set (echoes r)"
      then show "(f, h, a) \<in> set (echoes r)" by auto
    next
      assume m: "(f, h, a) \<in> set (echoes r)"
      with rng have "0 \<le> f \<and> f < nfrequences r \<and> 0 \<le> h \<and> h < nheights r" by fastforce
      then have "nat f < ?nf \<and> nat h < ?nh \<and> f = int (nat f) \<and> h = int (nat h)" by auto
      with m show "\<exists>i<?nf. \<exists>k<?nh. f = int i \<and> h = int k \<and> (int i, int k, a) \<in> set (echoes r)"
        by metis
    qed
    finally show "e \<in> ?L \<longleftrightarrow> e \<in> ?R" unfolding e .
  qed
  have enc: "encode_body r = (bs, None)" by (simp add: encode_body_def gi bs)
  have "noise (fst (parse_ionogram init_ionogram bs)) = noise r"
    using pn noise_eq by (simp add: parse_ionogram_def init_ionogram_def Let_def)
  moreover have "set (echoes (fst (parse_ionogram init_ionogram bs))) = set (echoes r)"
    using pe echo_eq by (simp add: parse_ionogram_def init_ionogram_def Let_def)
  moreover have "snd (parse_ionogram init_ionogram bs) = []"
    using po by (simp add: parse_ionogram_def init_ionogram_def Let_def)
  ultimately show ?thesis using enc by blast
qed

text \<open>The record of the concrete decoding scenario: one noise entry 5, one echo 42 at height 10.\<close>

theorem encode_decode_roundtrip_witness:
  "encodable loaded_example
   \<and> (\<exists>bs. encode_body loaded_example = (bs, None)
        \<and> noise (fst (parse_ionogram init_ionogram bs)) = [(0, IntV 5)]
        \<and> set (echoes (fst (parse_ionogram init_ionogram bs))) = {(0, 10, IntV 42)}
        \<and> snd (parse_ionogram init_ionogram bs) = [])"
proof -
  have v: "encodable loaded_example"
    unfolding encodable_def
    by (simp add: loaded_example_def init_ionogram_def np_any_def echo_key_def)
  from encode_decode_roundtrip[OF v] show ?thesis
    using v by (simp add: loaded_example_def init_ionogram_def)
qed

text \<open>
  C1 as stated fails. An amplitude \<open>2^15\<close> is written as the bytes 80 00, which the decoder
  takes for a cluster header: the echo is lost and a line is printed. Of two echoes at the same
  position the dense matrix keeps the last, so only that one is written.
\<close>

theorem roundtrip_counterexample:
  "noise high_amp_example = [(0, IntV 5)] \<and> echoes high_amp_example = [(0, 2, IntV 32768)]
   \<and> nfrequences high_amp_example = 1 \<and> nheights high_amp_example = 3
   \<and> encode_body high_amp_example = ([0x80, 0x01, 0, 1,  0, 5, 0, 1,  0x80, 0, 0, 2], None)
   \<and> parse_ionogram init_ionogram [0x80, 0x01, 0, 1,  0, 5, 0, 1,  0x80, 0, 0, 2]
       = (init_ionogram\<lparr>noise := [(0, IntV 5)], echoes := []\<rparr>, [''ERROR in align!''])
   \<and> noise twin_echo_example = [(0, IntV 5)]
   \<and> echoes twin_echo_example = [(0, 2, IntV 7), (0, 2, IntV 9)]
   \<and> nfrequences twin_echo_example = 1 \<and> nheights twin_echo_example = 3
   \<and> encode_body twin_echo_example = ([0x80, 0x01, 0, 1,  0, 5, 0, 1,  0, 9, 0, 2], None)
   \<and> parse_ionogram init_ionogram [0x80, 0x01, 0, 1,  0, 5, 0, 1,  0, 9, 0, 2]
       = (init_ionogram\<lparr>noise := [(0, IntV 5)], echoes := [(0, 2, IntV 9)]\<rparr>, [])"
proof -
  have r: "py_range 3 = [0, 1, 2]" "py_range 1 = [0]"
    by (simp_all add: py_range_def upt_rec)
  have h: "to_bytes 32769 2 = Inr [0x80, 0x01]"
    by (simp add: to_bytes_def be_digits_2)
  have al: "to_bytes align 2 = Inr [0, 1]" by (simp add: to_bytes_def be_digits_2 align_def)
  have n: "int_to_bytes2 (Fin 5) = Inr [0, 5]"
    by (simp add: int_to_bytes2_def to_bytes_def be_digits_2)
  have i2: "to_bytes 2 2 = Inr [0, 2]" by (simp add: to_bytes_def be_digits_2)
  have na: "noise_at [(0, IntV 5)] 0 = Inr (Fin 5)" by (simp add: noise_at_def py_index_def)
  have body: "write_cluster [(0, IntV 5)] [[NaN], [NaN], [Fin x]] 3 0
              = ([0x80, 0x01, 0, 1,  0, 5, 0, 1] @ bs @ [0, 2], None)"
    if a: "int_to_bytes2 (Fin x) = Inr bs" for x bs
  proof -
    let ?m = "[[NaN], [NaN], [Fin x]]"
    have g0: "mat_get ?m 0 0 = Inr NaN" by (simp add: mat_get_def py_index_def)
    have g1: "mat_get ?m 1 0 = Inr NaN" by (simp add: mat_get_def py_index_def)
    have g2: "mat_get ?m 2 0 = Inr (Fin x)" by (simp add: mat_get_def py_index_def)
    have w0: "write_height ?m 0 0 = ([], None)" by (simp add: write_height_def g0)
    have w1: "write_height ?m 0 1 = ([], None)" by (simp add: write_height_def g1)
    have w2: "write_height ?m 0 2 = (bs @ [0, 2], None)"
      by (simp add: write_height_def g2 a i2 wbytes_ok wthen_ok)
    have hs: "wfor (write_height ?m 0) [0, 1, 2] = (bs @ [0, 2], None)"
      by (simp add: w0 w1 w2 wthen_ok)
    show ?thesis
      by (simp add: write_cluster_def h al na n r hs wbytes_ok wthen_ok del: wfor.simps)
  qed
  have a1: "int_to_bytes2 (Fin 32768) = Inr [0x80, 0]"
    by (simp add: int_to_bytes2_def to_bytes_def be_digits_2)
  have a2: "int_to_bytes2 (Fin 9) = Inr [0, 9]"
    by (simp add: int_to_bytes2_def to_bytes_def be_digits_2)
  have m1: "fst (get_ionogram high_amp_example False) = Inr [[NaN], [NaN], [Fin 32768]]"
    by (simp add: get_ionogram_def high_amp_example_def loaded_example_def init_ionogram_def
        np_any_def np_full_def mat_set_def norm_index_def numeral_3_eq_3)
  have m2: "fst (get_ionogram twin_echo_example False) = Inr [[NaN], [NaN], [Fin 9]]"
    by (simp add: get_ionogram_def twin_echo_example_def loaded_example_def init_ionogram_def
        np_any_def np_full_def mat_set_def norm_index_def numeral_3_eq_3)
  have "write_body high_amp_example [[NaN], [NaN], [Fin 32768]] = ([0x80, 0x01, 0, 1,  0, 5, 0, 1,  0x80, 0, 0, 2], None)"
    using body[OF a1]
    by (simp add: write_body_def high_amp_example_def loaded_example_def init_ionogram_def r wthen_ok)
  then have e1: "encode_body high_amp_example = ([0x80, 0x01, 0, 1,  0, 5, 0, 1,  0x80, 0, 0, 2], None)"
    by (simp add: encode_body_def m1)
  have "write_body twin_echo_example [[NaN], [NaN], [Fin 9]] = ([0x80, 0x01, 0, 1,  0, 5, 0, 1,  0, 9, 0, 2], None)"
    using body[OF a2]
    by (simp add: write_body_def twin_echo_example_def loaded_example_def init_ionogram_def r wthen_ok)
  then have e2: "encode_body twin_echo_example = ([0x80, 0x01, 0, 1,  0, 5, 0, 1,  0, 9, 0, 2], None)"
    by (simp add: encode_body_def m2)
  have d1: "parse_ionogram init_ionogram [0x80, 0x01, 0, 1,  0, 5, 0, 1,  0x80, 0, 0, 2]
       = (init_ionogram\<lparr>noise := [(0, IntV 5)], echoes := []\<rparr>, [''ERROR in align!''])"
    by (simp add: decode_eval init_ionogram_def)
  have d2: "parse_ionogram init_ionogram [0x80, 0x01, 0, 1,  0, 5, 0, 1,  0, 9, 0, 2]
       = (init_ionogram\<lparr>noise := [(0, IntV 5)], echoes := [(0, 2, IntV 9)]\<rparr>, [])"
    by (simp add: decode_eval init_ionogram_def)
  show ?thesis
    using e1 e2 d1 d2
    by (simp add: high_amp_example_def twin_echo_example_def loaded_example_def)
qed

end
